theory Spec2Isabelle
  imports Main "HOL-Library.Word"
begin

unbundle bit_operations_syntax

section \<open>JavaScript values used by the tunnel\<close>

text \<open>
  The server (\<^verbatim>\<open>src/server/app.ts\<close>) and the client (\<^verbatim>\<open>src/client/proxy.ts\<close>) are
  event handlers over shared mutable state. The embedding makes the state a record that
  every handler takes and returns, an exception a value \<open>Inl e\<close>, and the suspended part
  of an \<^verbatim>\<open>async\<close> handler a context that a later event resumes.

  A value of type \<^verbatim>\<open>string | undefined\<close> is a \<open>string option\<close>; it is truthy when
  it is a non-empty string.
\<close>

type_synonym bytes = "8 word list"

definition truthy :: "string option \<Rightarrow> bool" where
  "truthy v = (case v of None \<Rightarrow> False | Some s \<Rightarrow> s \<noteq> [])"

text \<open>\<^verbatim>\<open>a || b\<close> on such values.\<close>

definition js_or :: "string option \<Rightarrow> string option \<Rightarrow> string option" where
  "js_or a b = (if truthy a then a else b)"

text \<open>\<^verbatim>\<open>stripStart(str, prefix)\<close> of the string library: the prefix is removed once when
  the string starts with it.\<close>

definition stripStart :: "string \<Rightarrow> string \<Rightarrow> string" where
  "stripStart str pre = (if take (length pre) str = pre then drop (length pre) str else str)"

text \<open>\<^verbatim>\<open>toLowerCase\<close> on the ASCII letters, which is all that a match against
  \<^verbatim>\<open>/^(true|on|1)$/\<close> can depend on.\<close>

definition lower_char :: "char \<Rightarrow> char" where
  "lower_char c =
     (let n = (of_char c :: nat) in if 65 \<le> n \<and> n \<le> 90 then char_of (n + 32) else c)"

definition toLowerCase :: "string \<Rightarrow> string" where
  "toLowerCase s = map lower_char s"

text \<open>\<^verbatim>\<open>X?.toLowerCase().match(/^(true|on|1)$/)\<close> as a condition.\<close>

definition env_flag :: "string option \<Rightarrow> bool" where
  "env_flag v = (case v of None \<Rightarrow> False
                 | Some s \<Rightarrow> toLowerCase s \<in> set [''true'', ''on'', ''1''])"

subsection \<open>Objects as ordered property lists\<close>

text \<open>
  \<^verbatim>\<open>const clients: Record<string, ClientRecord | null> = {}\<close> is an ordinary object. Its own
  properties are kept here in the order of their creation. \<^verbatim>\<open>Object.values\<close> lists the
  properties whose key is an array index (a canonical decimal numeral below \<open>2^32 - 1\<close>)
  first, in ascending numeric order, and then the other keys in the order of their
  creation; this is the own-property order of the language.
\<close>

type_synonym 'v jsobject = "(string \<times> 'v) list"

definition is_digit :: "char \<Rightarrow> bool" where
  "is_digit c = (let n = (of_char c :: nat) in 48 \<le> n \<and> n \<le> 57)"

definition digits_value :: "string \<Rightarrow> nat" where
  "digits_value s = foldl (\<lambda>n c. 10 * n + ((of_char c :: nat) - 48)) 0 s"

definition is_array_index :: "string \<Rightarrow> bool" where
  "is_array_index k =
     (k \<noteq> [] \<and> list_all is_digit k \<and> (k = ''0'' \<or> hd k \<noteq> CHR ''0'')
      \<and> digits_value k < 4294967295)"

definition own_entries :: "'v jsobject \<Rightarrow> 'v jsobject" where
  "own_entries obj =
     sort_key (\<lambda>kv. digits_value (fst kv)) (filter (\<lambda>kv. is_array_index (fst kv)) obj)
     @ filter (\<lambda>kv. \<not> is_array_index (fst kv)) obj"

definition Object_values :: "'v jsobject \<Rightarrow> 'v list" where
  "Object_values obj = map snd (own_entries obj)"

text \<open>\<^verbatim>\<open>obj[k]\<close>: the own property, \<open>None\<close> for \<^verbatim>\<open>undefined\<close>.\<close>

definition obj_get :: "'v jsobject \<Rightarrow> string \<Rightarrow> 'v option" where
  "obj_get obj k = map_of obj k"

text \<open>
  \<^verbatim>\<open>obj[k] = v\<close>: an own property keeps its place and takes the new value; a new key is
  appended. The key \<^verbatim>\<open>__proto__\<close>, when it is not an own property, reaches the
  accessor of \<^verbatim>\<open>Object.prototype\<close> and creates no own property.
\<close>

definition obj_update :: "string \<Rightarrow> 'v \<Rightarrow> 'v jsobject \<Rightarrow> 'v jsobject" where
  "obj_update k v obj = map (\<lambda>kv. if fst kv = k then (k, v) else kv) obj"

definition obj_set :: "string \<Rightarrow> 'v \<Rightarrow> 'v jsobject \<Rightarrow> 'v jsobject" where
  "obj_set k v obj =
     (if k \<in> fst ` set obj then obj_update k v obj
      else if k = ''__proto__'' then obj
      else obj @ [(k, v)])"

subsection \<open>CRC-32 and request ids\<close>

text \<open>
  Modelled from the spec: \<^verbatim>\<open>crc32\<close> of the hash library is not under \<^verbatim>\<open>src/\<close>; the
  spec names it CRC32, the reflected CRC-32 with polynomial \<open>0xEDB88320\<close> over the bytes
  of the string, as an unsigned 32-bit number.
\<close>

definition crc_shift :: "32 word \<Rightarrow> 32 word" where
  "crc_shift c = (if bit c 0 then drop_bit 1 c XOR 0xEDB88320 else drop_bit 1 c)"

definition crc_byte :: "32 word \<Rightarrow> char \<Rightarrow> 32 word" where
  "crc_byte c b = (crc_shift ^^ 8) (c XOR of_nat (of_char b))"

definition crc32 :: "string \<Rightarrow> nat" where
  "crc32 s = unat (NOT (foldl crc_byte 0xFFFFFFFF s))"

text \<open>
  Modelled from the spec: \<^verbatim>\<open>serial\<close> of the number library is not under \<^verbatim>\<open>src/\<close>; the
  spec describes the request id as the base-32 rendering of a monotonically increasing
  counter. \<^verbatim>\<open>nextId\<close> takes the next counter value and renders it with
  \<^verbatim>\<open>toString(32)\<close>.
\<close>

definition digit32 :: "nat \<Rightarrow> char" where
  "digit32 d = ''0123456789abcdefghijklmnopqrstuv'' ! d"

function toString32 :: "nat \<Rightarrow> string" where
  "toString32 n = (if n < 32 then [digit32 n] else toString32 (n div 32) @ [digit32 (n mod 32)])"
  by pat_completeness auto
termination
  by (relation "measure (\<lambda>n. n)") auto

declare toString32.simps [simp del]

section \<open>Frames\<close>

text \<open>The frame shapes of \<^verbatim>\<open>src/header.ts\<close>. The server sends request frames and
  receives response frames; the \<^verbatim>\<open>type\<close> tag is the constructor. Optional bytes
  (\<^verbatim>\<open>data?\<close>, \<^verbatim>\<open>body?\<close>) are an option.\<close>

type_synonym header_list = "(string \<times> string) list"

datatype request_frame =
    ProxyRequestHeaderFrame string string string header_list bool
  | ProxyRequestBodyFrame string "bytes option" bool
  | ProxyRequestFrame string string string header_list "bytes option"
  | ProxyRequestAbortFrame string

datatype response_frame =
    ProxyResponseHeaderFrame string int string header_list bool
  | ProxyResponseBodyFrame string "bytes option" bool

fun frame_requestId :: "response_frame \<Rightarrow> string" where
  "frame_requestId (ProxyResponseHeaderFrame rid _ _ _ _) = rid"
| "frame_requestId (ProxyResponseBodyFrame rid _ _) = rid"

section \<open>The server\<close>

subsection \<open>State\<close>

type_synonym socket = nat
type_synonym ref = nat

text \<open>A message handed to \<^verbatim>\<open>socket.send\<close>: a text or a packed frame.\<close>

datatype ws_message = TextMessage string | FrameMessage request_frame

text \<open>A response body: none, a text, or the readable end of the \<^verbatim>\<open>TransformStream\<close>
  whose writer is registered in \<^verbatim>\<open>responseWriters\<close> under the request id.\<close>

datatype body = NullBody | TextBody string | StreamBody string

record response =
  status :: int
  statusText :: string
  headers :: header_list
  body :: body

text \<open>What an \<^verbatim>\<open>AsyncTask<Response | WebSocketStream>\<close> resolves with. The task itself
  is \<open>None\<close> while pending and \<open>Some v\<close> once settled; \<^verbatim>\<open>resolve\<close> on a settled task
  changes nothing.\<close>

datatype outcome = HttpResponse response | UpstreamPort socket

type_synonym task = "outcome option"

definition resolve :: "outcome \<Rightarrow> task \<Rightarrow> task" where
  "resolve v t = (case t of None \<Rightarrow> Some v | Some w \<Rightarrow> Some w)"

text \<open>A \<^verbatim>\<open>WritableStreamDefaultWriter\<close>: the chunks written and whether it is
  closed. Writing to or closing a closed writer rejects, and the rejection is caught.\<close>

record writer =
  chunks :: "bytes list"
  closed :: bool

definition writer_write :: "bytes \<Rightarrow> writer \<Rightarrow> writer" where
  "writer_write d w = (if closed w then w else w\<lparr>chunks := chunks w @ [d]\<rparr>)"

definition writer_close :: "writer \<Rightarrow> writer" where
  "writer_close w = w\<lparr>closed := True\<rparr>"

record ClientRecord =
  socket :: socket
  requests :: "string set"
  responses :: "string set"

text \<open>
  The module state. \<open>clients\<close> holds, per client id, a reference to a
  \<^verbatim>\<open>ClientRecord\<close> object (\<open>Some r\<close>) or \<^verbatim>\<open>null\<close> (\<open>None\<close>); the objects live in
  \<open>records\<close>, since a suspended dispatcher keeps the object it chose after the slot has
  been overwritten. \<open>nextRef\<close> is the next unused reference and \<open>outbox\<close> the log of
  \<^verbatim>\<open>socket.send\<close> calls. \<open>authRule\<close> is the compiled \<^verbatim>\<open>RegExp\<close>, kept as its
  \<^verbatim>\<open>test\<close> function.
\<close>

record server =
  authRule :: "(string \<Rightarrow> bool) option"
  idPool :: nat
  clients :: "ref option jsobject"
  records :: "ref \<rightharpoonup> ClientRecord"
  nextRef :: ref
  requestTasks :: "string \<rightharpoonup> task"
  responseWriters :: "string \<rightharpoonup> writer"
  outbox :: "(socket \<times> ws_message) list"

definition init_server :: server where
  "init_server = \<lparr>authRule = None, idPool = 0, clients = [], records = Map.empty,
     nextRef = 0, requestTasks = Map.empty, responseWriters = Map.empty, outbox = []\<rparr>"

text \<open>The environment variables read through \<^verbatim>\<open>env()\<close>.\<close>

record env =
  AUTH_TOKEN :: "string option"
  AUTH_RULE :: "string option"
  CONN_TOKEN :: "string option"
  FORWARD_HOST :: "string option"
  BUFFER_REQUEST :: "string option"

text \<open>An inbound public request: the method, \<^verbatim>\<open>ctx.req.path\<close>, the parts of its URL, its
  header entries (names in lower case, as \<^verbatim>\<open>Headers\<close> keeps them), the host name of
  the remote address when the runtime gives one, and the chunks of its body.\<close>

record request =
  req_method :: string
  path :: string
  protocol :: string
  host :: string
  pathname :: string
  search :: string
  req_headers :: header_list
  remoteAddress :: "string option"
  req_body :: "bytes list option"

definition header :: "request \<Rightarrow> string \<Rightarrow> string option" where
  "header req name = map_of (req_headers req) name"

definition update_record :: "ref \<Rightarrow> (ClientRecord \<Rightarrow> ClientRecord) \<Rightarrow> server \<Rightarrow> server" where
  "update_record r f st =
     (case records st r of None \<Rightarrow> st
      | Some c \<Rightarrow> st\<lparr>records := (records st)(r \<mapsto> f c)\<rparr>)"

definition send :: "socket \<Rightarrow> ws_message \<Rightarrow> server \<Rightarrow> server" where
  "send s m st = st\<lparr>outbox := outbox st @ [(s, m)]\<rparr>"

text \<open>\<^verbatim>\<open>client.socket.send(m)\<close> for the record object \<open>r\<close>.\<close>

definition send_to :: "ref \<Rightarrow> ws_message \<Rightarrow> server \<Rightarrow> server" where
  "send_to r m st = (case records st r of None \<Rightarrow> st | Some c \<Rightarrow> send (socket c) m st)"

subsection \<open>Admission\<close>

text \<open>\<^verbatim>\<open>passAuth\<close>, lines 56-58.\<close>

definition passAuth :: "server \<Rightarrow> string \<Rightarrow> bool" where
  "passAuth st p = (case authRule st of Some rule \<Rightarrow> \<not> rule p | None \<Rightarrow> False)"

definition respondBody :: "request \<Rightarrow> bool" where
  "respondBody req = (req_method req \<notin> set [''HEAD'', ''OPTIONS''])"

text \<open>Lines 279-281: the credential, from \<^verbatim>\<open>x-auth-token\<close> or \<^verbatim>\<open>authorization\<close>,
  without a leading \<^verbatim>\<open>Bearer\<close>.\<close>

definition bearer :: "request \<Rightarrow> string option" where
  "bearer req =
     (let auth = js_or (header req ''x-auth-token'') (header req ''authorization'')
      in if truthy auth then map_option (\<lambda>a. stripStart a ''Bearer '') auth else auth)"

text \<open>The condition of line 284.\<close>

definition unauthorized :: "env \<Rightarrow> server \<Rightarrow> request \<Rightarrow> bool" where
  "unauthorized cfg st req =
     (truthy (AUTH_TOKEN cfg) \<and> bearer req \<noteq> AUTH_TOKEN cfg \<and> \<not> passAuth st (path req))"

text \<open>\<^verbatim>\<open>new Response(respondBody ? text : null, { status, statusText })\<close>.\<close>

definition text_response :: "bool \<Rightarrow> string \<Rightarrow> int \<Rightarrow> string \<Rightarrow> response" where
  "text_response withBody txt code reason =
     \<lparr>status = code, statusText = reason, headers = [],
      body = (if withBody then TextBody txt else NullBody)\<rparr>"

subsection \<open>Selection and transmission\<close>

text \<open>\<^verbatim>\<open>Object.values(clients).filter(Boolean)\<close>, line 291: the references of the live
  records, tombstones left out.\<close>

definition live_clients :: "server \<Rightarrow> ref list" where
  "live_clients st = List.map_filter (\<lambda>v. v) (Object_values (clients st))"

text \<open>Lines 300-309: the caller's address.\<close>

definition caller_ip :: "request \<Rightarrow> string" where
  "caller_ip req =
     (if truthy (header req ''x-forwarded-for'') then the (header req ''x-forwarded-for'')
      else (case remoteAddress req of Some h \<Rightarrow> h | None \<Rightarrow> []))"

definition headers_has :: "header_list \<Rightarrow> string \<Rightarrow> bool" where
  "headers_has hs name = (name \<in> fst ` set hs)"

text \<open>\<^verbatim>\<open>headers.set\<close>, called in the handler only for a name that is absent.\<close>

definition headers_set :: "string \<Rightarrow> string \<Rightarrow> header_list \<Rightarrow> header_list" where
  "headers_set name v hs = filter (\<lambda>kv. fst kv \<noteq> name) hs @ [(name, v)]"

text \<open>Lines 315-332: the headers forwarded to the client.\<close>

definition forward_headers :: "env \<Rightarrow> request \<Rightarrow> string \<Rightarrow> header_list" where
  "forward_headers cfg req ip =
     (let h0 = req_headers req;
          h1 = (if ip \<noteq> [] \<and> \<not> headers_has h0 ''x-forwarded-for''
                then headers_set ''x-forwarded-for'' ip h0 else h0);
          h2 = (if \<not> headers_has h1 ''x-forwarded-proto''
                then headers_set ''x-forwarded-proto'' (butlast (protocol req)) h1 else h1)
      in if \<not> env_flag (FORWARD_HOST cfg) \<and> \<not> headers_has h2 ''x-forwarded-host''
         then headers_set ''x-forwarded-host'' (host req) h2
         else if \<not> headers_has h2 ''host'' then headers_set ''host'' (host req) h2
         else h2)"

text \<open>The first frame of a request, lines 339-364: the buffered \<^verbatim>\<open>request\<close> frame with the
  whole body when \<^verbatim>\<open>BUFFER_REQUEST\<close> is on, the \<^verbatim>\<open>header\<close> frame otherwise.\<close>

definition first_frame :: "env \<Rightarrow> request \<Rightarrow> string \<Rightarrow> header_list \<Rightarrow> request_frame" where
  "first_frame cfg req requestId hs =
     (if env_flag (BUFFER_REQUEST cfg)
      then ProxyRequestFrame requestId (req_method req) (pathname req @ search req) hs
             (map_option concat (req_body req))
      else ProxyRequestHeaderFrame requestId (req_method req) (pathname req @ search req) hs
             (req_body req = None))"

text \<open>What the suspended handler keeps across \<^verbatim>\<open>await Promise.any([task, sleep(30_000)])\<close>:
  the request id, the chosen record object, \<^verbatim>\<open>respondBody\<close>, and the time in
  milliseconds at which the timer was started.\<close>

record dispatch_ctx =
  ctx_requestId :: string
  ctx_client :: ref
  ctx_respondBody :: bool
  ctx_started :: nat

text \<open>
  The handler of \<^verbatim>\<open>app.all("/*")\<close> up to its \<^verbatim>\<open>await\<close>, lines 276-401. It answers
  at once (\<open>Inl\<close>) with 401 or 503, or registers the task, sends the first frame to the
  chosen client and suspends (\<open>Inr\<close>). In the buffered mode the body is taken as read.
\<close>

definition dispatch :: "env \<Rightarrow> nat \<Rightarrow> request \<Rightarrow> server \<Rightarrow> (response + dispatch_ctx) \<times> server" where
  "dispatch cfg now req st =
     (if unauthorized cfg st req
      then (Inl (text_response (respondBody req) ''Unauthorized'' 401 ''Unauthorized''), st)
      else let cs = live_clients st in
        if cs = []
        then (Inl (text_response (respondBody req) ''No proxy client'' 503
                     ''Service Unavailable''), st)
        else let ip = caller_ip req;
                 client = cs ! (crc32 ip mod length cs);
                 n = Suc (idPool st);
                 requestId = toString32 n;
                 hs = forward_headers cfg req ip;
                 st1 = st\<lparr>idPool := n,
                          requestTasks := (requestTasks st)(requestId \<mapsto> None)\<rparr>;
                 st2 = update_record client
                         (\<lambda>c. c\<lparr>requests := insert requestId (requests c)\<rparr>) st1;
                 st3 = send_to client (FrameMessage (first_frame cfg req requestId hs)) st2
             in (Inr \<lparr>ctx_requestId = requestId, ctx_client = client,
                       ctx_respondBody = respondBody req, ctx_started = now\<rparr>, st3))"

subsection \<open>The suspended handler resumes\<close>

text \<open>
  \<^verbatim>\<open>await Promise.any([task, sleep(30_000)])\<close>, line 401, read at the time \<open>now\<close>:
  \<open>None\<close> while neither promise is fulfilled, \<open>Some (Some v)\<close> when the task is
  settled with \<open>v\<close>, \<open>Some None\<close> when only the timer has run out. A task that is no
  longer in the map was never settled.
\<close>

definition await_any :: "task option \<Rightarrow> nat \<Rightarrow> nat \<Rightarrow> outcome option option" where
  "await_any t started now =
     (case t of
        Some (Some v) \<Rightarrow> Some (Some v)
      | _ \<Rightarrow> if started + 30000 \<le> now then Some None else None)"

text \<open>What the handler returns: a response, or the upgrade of the public connection
  piped to the upstream port of a WebSocket tunnel.\<close>

datatype reply = Respond response | Upgrade socket

text \<open>Lines 405-443.\<close>

definition reply_of :: "dispatch_ctx \<Rightarrow> outcome option \<Rightarrow> reply" where
  "reply_of ctx res =
     (case res of
        Some (HttpResponse r) \<Rightarrow> Respond r
      | Some (UpstreamPort u) \<Rightarrow> Upgrade u
      | None \<Rightarrow> Respond (text_response (ctx_respondBody ctx) ''Proxy client timeout'' 504
                          ''Gateway Timeout''))"

text \<open>Lines 402-403: the cleanup, on the task map and on the record object the handler
  chose.\<close>

definition cleanup :: "dispatch_ctx \<Rightarrow> server \<Rightarrow> server" where
  "cleanup ctx st =
     update_record (ctx_client ctx)
       (\<lambda>c. c\<lparr>requests := requests c - {ctx_requestId ctx}\<rparr>)
       (st\<lparr>requestTasks := (requestTasks st)(ctx_requestId ctx := None)\<rparr>)"

text \<open>The rest of the handler, lines 401-443: \<open>None\<close> while it stays suspended.\<close>

definition resume :: "dispatch_ctx \<Rightarrow> nat \<Rightarrow> server \<Rightarrow> (reply \<times> server) option" where
  "resume ctx now st =
     (case await_any (requestTasks st (ctx_requestId ctx)) (ctx_started ctx) now of
        None \<Rightarrow> None
      | Some res \<Rightarrow> Some (reply_of ctx res, cleanup ctx st))"

subsection \<open>The response assembler\<close>

text \<open>The exceptions of the language that the handlers can raise. \<open>Unmodelled\<close> is not
  one of them: it marks a received value that lies outside the frame shapes of
  \<^verbatim>\<open>src/header.ts\<close> and about which the embedding says nothing.\<close>

datatype error = TypeError | RangeError | SyntaxError | Unmodelled

text \<open>
  \<^verbatim>\<open>new Response(body, { status, statusText, headers })\<close> with a status received from
  the client: the constructor throws a \<^verbatim>\<open>RangeError\<close> for a status outside 200..599
  and a \<^verbatim>\<open>TypeError\<close> for a body with a null-body status.
\<close>

definition new_Response :: "body \<Rightarrow> int \<Rightarrow> string \<Rightarrow> header_list \<Rightarrow> error + response" where
  "new_Response b code reason hs =
     (if code < 200 \<or> 599 < code then Inl RangeError
      else if b \<noteq> NullBody \<and> code \<in> set [204, 205, 304] then Inl TypeError
      else Inr \<lparr>status = code, statusText = reason, headers = hs, body = b\<rparr>)"

definition resolve_task :: "string \<Rightarrow> outcome \<Rightarrow> server \<Rightarrow> server" where
  "resolve_task requestId v st =
     (case requestTasks st requestId of
        None \<Rightarrow> st
      | Some t \<Rightarrow> st\<lparr>requestTasks := (requestTasks st)(requestId \<mapsto> resolve v t)\<rparr>)"

text \<open>\<^verbatim>\<open>clients[clientId]?.responses.add(requestId)\<close> and \<^verbatim>\<open>.delete(requestId)\<close>.\<close>

definition client_responses ::
  "string \<Rightarrow> (string set \<Rightarrow> string set) \<Rightarrow> server \<Rightarrow> server" where
  "client_responses clientId f st =
     (case obj_get (clients st) clientId of
        Some (Some r) \<Rightarrow> update_record r (\<lambda>c. c\<lparr>responses := f (responses c)\<rparr>) st
      | _ \<Rightarrow> st)"

text \<open>\<^verbatim>\<open>processResponseMessage\<close>, lines 78-131. An exception of the constructor leaves
  the state as it was: it is thrown before the first write.\<close>

fun processResponseMessage :: "response_frame \<Rightarrow> string \<Rightarrow> server \<Rightarrow> error + server" where
  "processResponseMessage (ProxyResponseHeaderFrame requestId code reason hs eof) clientId st =
     (case requestTasks st requestId of
        None \<Rightarrow> Inr st
      | Some t \<Rightarrow>
          if eof then
            (case new_Response NullBody code reason hs of
               Inl e \<Rightarrow> Inl e
             | Inr res \<Rightarrow> Inr (resolve_task requestId (HttpResponse res) st))
          else
            (case new_Response (StreamBody requestId) code reason hs of
               Inl e \<Rightarrow> Inl e
             | Inr res \<Rightarrow>
                 Inr (resolve_task requestId (HttpResponse res)
                       (client_responses clientId (insert requestId)
                         (st\<lparr>responseWriters := (responseWriters st)
                               (requestId \<mapsto> \<lparr>chunks = [], closed = False\<rparr>)\<rparr>)))))"
| "processResponseMessage (ProxyResponseBodyFrame requestId data eof) clientId st =
     (case responseWriters st requestId of
        None \<Rightarrow> Inr st
      | Some w \<Rightarrow>
          if eof then
            Inr (client_responses clientId (\<lambda>s. s - {requestId})
                  (st\<lparr>responseWriters := (responseWriters st)(requestId := None)\<rparr>))
          else (case data of
                  Some d \<Rightarrow> Inr (st\<lparr>responseWriters :=
                                     (responseWriters st)(requestId \<mapsto> writer_write d w)\<rparr>)
                | None \<Rightarrow> Inr st))"

subsection \<open>The control connection\<close>

text \<open>
  \<^verbatim>\<open>createAuthRule\<close>, lines 31-54. The \<^verbatim>\<open>RegExp\<close> constructor is the language's and is
  a parameter here: from a pattern and flags it gives the \<^verbatim>\<open>test\<close> function of the
  expression, or throws.
\<close>

type_synonym regexp = "string \<Rightarrow> string \<Rightarrow> error + (string \<Rightarrow> bool)"

definition lastIndexOf :: "string \<Rightarrow> char \<Rightarrow> nat" where
  "lastIndexOf s c = length s - Suc (length (takeWhile (\<lambda>x. x \<noteq> c) (rev s)))"

definition createAuthRule :: "regexp \<Rightarrow> string \<Rightarrow> error + (string \<Rightarrow> bool)" where
  "createAuthRule RegExp rule =
     (if take 1 rule = ''/'' then
        (let lastIndex = lastIndexOf rule CHR ''/'' in
         if 1 < lastIndex then
           (let pattern = take (lastIndex - 1) (drop 1 rule);
                flags = drop (lastIndex + 1) rule
            in RegExp pattern
                 (if flags \<noteq> [] \<and> flags \<noteq> ''i''
                  then (if CHR ''i'' \<in> set flags then ''i'' else [])
                  else flags))
         else RegExp rule [])
      else RegExp rule [])"

text \<open>Lines 140-143: \<^verbatim>\<open>authRule ??= createAuthRule(AUTH_RULE)\<close> when \<^verbatim>\<open>AUTH_RULE\<close> is
  set.\<close>

definition init_authRule :: "regexp \<Rightarrow> env \<Rightarrow> server \<Rightarrow> error + server" where
  "init_authRule RegExp cfg st =
     (if truthy (AUTH_RULE cfg) \<and> authRule st = None
      then (case createAuthRule RegExp (the (AUTH_RULE cfg)) of
              Inl e \<Rightarrow> Inl e
            | Inr rule \<Rightarrow> Inr (st\<lparr>authRule := Some rule\<rparr>))
      else Inr st)"

text \<open>The \<^verbatim>\<open>open\<close> listener, lines 162-169: a fresh record object is bound to the
  client id.\<close>

definition socket_open :: "socket \<Rightarrow> string \<Rightarrow> server \<Rightarrow> server" where
  "socket_open s clientId st =
     st\<lparr>clients := obj_set clientId (Some (nextRef st)) (clients st),
        records := (records st)(nextRef st \<mapsto> \<lparr>socket = s, requests = {}, responses = {}\<rparr>),
        nextRef := Suc (nextRef st)\<rparr>"

definition internal_server_error :: response where
  "internal_server_error =
     \<lparr>status = 500, statusText = ''Internal Server Error'', headers = [], body = NullBody\<rparr>"

text \<open>
  The \<^verbatim>\<open>close\<close> listener, lines 188-212. \<^verbatim>\<open>clients[clientId]!\<close> is read when the
  connection \<open>s\<close> closes; destructuring \<^verbatim>\<open>undefined\<close> or \<^verbatim>\<open>null\<close> throws a
  \<^verbatim>\<open>TypeError\<close> before anything is written. The two \<^verbatim>\<open>forEach\<close> loops resolve the
  task and close the writer of every id of the sets that the maps still hold.
\<close>

definition socket_close :: "socket \<Rightarrow> string \<Rightarrow> server \<Rightarrow> error + server" where
  "socket_close s clientId st =
     (case obj_get (clients st) clientId of
        Some (Some r) \<Rightarrow>
          (case records st r of
             None \<Rightarrow> Inl TypeError
           | Some c \<Rightarrow>
               Inr (st\<lparr>requestTasks :=
                          (\<lambda>requestId.
                             if requestId \<in> requests c
                             then map_option (resolve (HttpResponse internal_server_error))
                                    (requestTasks st requestId)
                             else requestTasks st requestId),
                        responseWriters :=
                          (\<lambda>requestId.
                             if requestId \<in> responses c
                             then map_option writer_close (responseWriters st requestId)
                             else responseWriters st requestId),
                        clients := obj_set clientId None (clients st)\<rparr>))
      | _ \<Rightarrow> Inl TypeError)"

subsection \<open>Decoded messages\<close>

text \<open>
  What \<^verbatim>\<open>unpack\<close> returns is untyped. The values are the ones the codec produces:
  \<^verbatim>\<open>undefined\<close>, \<^verbatim>\<open>null\<close>, booleans, integers, strings, byte arrays, arrays and
  plain objects.
\<close>

datatype jsval =
    JUndefined | JNull | JBoolean bool | JNumber int | JString string | JBytes bytes
  | JArray "jsval list" | JObject "(string \<times> jsval) list"

fun typeof :: "jsval \<Rightarrow> string" where
  "typeof JUndefined = ''undefined''"
| "typeof JNull = ''object''"
| "typeof (JBoolean b) = ''boolean''"
| "typeof (JNumber n) = ''number''"
| "typeof (JString s) = ''string''"
| "typeof (JBytes d) = ''object''"
| "typeof (JArray xs) = ''object''"
| "typeof (JObject fs) = ''object''"

fun js_truthy :: "jsval \<Rightarrow> bool" where
  "js_truthy JUndefined = False"
| "js_truthy JNull = False"
| "js_truthy (JBoolean b) = b"
| "js_truthy (JNumber n) = (n \<noteq> 0)"
| "js_truthy (JString s) = (s \<noteq> [])"
| "js_truthy (JBytes d) = True"
| "js_truthy (JArray xs) = True"
| "js_truthy (JObject fs) = True"

text \<open>\<^verbatim>\<open>v.name\<close> for a value other than \<^verbatim>\<open>null\<close> and \<^verbatim>\<open>undefined\<close>, for the field
  names of the frames: only a plain object has such a property.\<close>

fun js_prop :: "jsval \<Rightarrow> string \<Rightarrow> jsval" where
  "js_prop (JObject fs) name = (case map_of fs name of Some v \<Rightarrow> v | None \<Rightarrow> JUndefined)"
| "js_prop v name = JUndefined"

definition js_falsy :: "jsval \<Rightarrow> bool" where
  "js_falsy v = (\<not> js_truthy v)"

definition not_string :: "jsval \<Rightarrow> bool" where
  "not_string v = (typeof v \<noteq> ''string'')"

text \<open>
  The condition under which both message listeners return without processing the
  frame, \<^verbatim>\<open>src/server/app.ts\<close> lines 180-184 and \<^verbatim>\<open>src/client/proxy.ts\<close> lines
  191-195:
  \<^verbatim>\<open>typeof frame !== "object" && (!frame || typeof frame.type !== "string" || typeof frame.requestId !== "string")\<close>.
\<close>

definition frame_rejected :: "jsval \<Rightarrow> bool" where
  "frame_rejected frame =
     (typeof frame \<noteq> ''object'' \<and>
      (js_falsy frame \<or> not_string (js_prop frame ''type'')
       \<or> not_string (js_prop frame ''requestId'')))"

text \<open>The response frames among the decoded values: an object that has the fields of
  \<^verbatim>\<open>ProxyResponseHeaderFrame\<close> or \<^verbatim>\<open>ProxyResponseBodyFrame\<close> with their declared
  types. \<^verbatim>\<open>eof\<close> is only ever tested for truth.\<close>

fun header_pair :: "jsval \<Rightarrow> (string \<times> string) option" where
  "header_pair (JArray [JString k, JString v]) = Some (k, v)"
| "header_pair v = None"

fun header_entries :: "jsval \<Rightarrow> header_list option" where
  "header_entries (JArray xs) =
     (if list_all (\<lambda>x. header_pair x \<noteq> None) xs then Some (map (\<lambda>x. the (header_pair x)) xs)
      else None)"
| "header_entries v = None"

fun optional_bytes :: "jsval \<Rightarrow> bytes option option" where
  "optional_bytes JUndefined = Some None"
| "optional_bytes (JBytes d) = Some (Some d)"
| "optional_bytes v = None"

fun response_header_of :: "string \<Rightarrow> jsval \<Rightarrow> jsval \<Rightarrow> header_list option \<Rightarrow> bool
    \<Rightarrow> response_frame option" where
  "response_header_of rid (JNumber code) (JString reason) (Some hs) eof =
     Some (ProxyResponseHeaderFrame rid code reason hs eof)"
| "response_header_of rid code reason hs eof = None"

fun response_frame_of :: "jsval \<Rightarrow> response_frame option" where
  "response_frame_of (JObject fs) =
     (case js_prop (JObject fs) ''requestId'' of
        JString rid \<Rightarrow>
          if js_prop (JObject fs) ''type'' = JString ''header'' then
            response_header_of rid (js_prop (JObject fs) ''status'')
              (js_prop (JObject fs) ''statusText'') (header_entries (js_prop (JObject fs) ''headers''))
              (js_truthy (js_prop (JObject fs) ''eof''))
          else if js_prop (JObject fs) ''type'' = JString ''body'' then
            map_option (\<lambda>d. ProxyResponseBodyFrame rid d (js_truthy (js_prop (JObject fs) ''eof'')))
              (optional_bytes (js_prop (JObject fs) ''data''))
          else None
      | _ \<Rightarrow> None)"
| "response_frame_of v = None"

text \<open>A value that passes the guard and is no frame still reaches
  \<^verbatim>\<open>processResponseMessage\<close>. Unless its \<^verbatim>\<open>type\<close> is \<^verbatim>\<open>"header"\<close> or
  \<^verbatim>\<open>"body"\<close> and its \<^verbatim>\<open>requestId\<close> a string, no branch is taken or the lookup in
  the map, whose keys are strings, finds nothing.\<close>

definition reaches_lookup :: "jsval \<Rightarrow> bool" where
  "reaches_lookup frame =
     (js_prop frame ''type'' \<in> set [JString ''header'', JString ''body'']
      \<and> typeof (js_prop frame ''requestId'') = ''string'')"

datatype ws_data = Text string | Binary jsval

text \<open>
  The \<^verbatim>\<open>message\<close> listener of the server, lines 170-187, on a text or on the value
  that \<^verbatim>\<open>unpack\<close> returned. Reading \<^verbatim>\<open>frame.type\<close> of \<^verbatim>\<open>null\<close> throws a
  \<^verbatim>\<open>TypeError\<close>.
\<close>

definition socket_message :: "socket \<Rightarrow> string \<Rightarrow> ws_data \<Rightarrow> server \<Rightarrow> error + server" where
  "socket_message s clientId d st =
     (case d of
        Text t \<Rightarrow> if t = ''ping'' then Inr (send s (TextMessage ''pong'') st) else Inr st
      | Binary frame \<Rightarrow>
          if frame_rejected frame then Inr st
          else if frame = JNull then Inl TypeError
          else (case response_frame_of frame of
                  Some f \<Rightarrow> processResponseMessage f clientId st
                | None \<Rightarrow> if reaches_lookup frame then Inl Unmodelled else Inr st))"

subsection \<open>The other endpoints\<close>

text \<open>\<^verbatim>\<open>ctx.text(message, { status })\<close>.\<close>

definition ctx_text :: "string \<Rightarrow> int \<Rightarrow> string \<Rightarrow> response" where
  "ctx_text message code reason =
     \<lparr>status = code, statusText = reason, headers = [], body = TextBody message\<rparr>"

text \<open>
  The handler of \<^verbatim>\<open>/__connect__\<close>, lines 135-215, up to the upgrade: it compiles the
  rule once, and answers \<open>Some r\<close> when it refuses the connection and \<open>None\<close> when it
  upgrades it; the listeners of the new connection run as the events below.
\<close>

definition connect ::
  "regexp \<Rightarrow> env \<Rightarrow> string option \<Rightarrow> string option \<Rightarrow> server \<Rightarrow> error + response option \<times> server" where
  "connect RegExp cfg clientId token st =
     (case init_authRule RegExp cfg st of
        Inl e \<Rightarrow> Inl e
      | Inr st1 \<Rightarrow>
          if \<not> truthy clientId then Inr (Some (ctx_text ''Client ID is missing.'' 400 []), st1)
          else if truthy (CONN_TOKEN cfg) \<and> js_or token (Some []) \<noteq> CONN_TOKEN cfg
          then Inr (Some \<lparr>status = 401, statusText = ''Unauthorized'', headers = [],
                          body = TextBody ''Unauthorized''\<rparr>, st1)
          else Inr (None, st1))"

text \<open>The handler of \<^verbatim>\<open>/__ws__\<close>, lines 242-273: the client's leg of a WebSocket
  tunnel resolves the task with the upstream port \<open>s\<close>.\<close>

definition ws_connect ::
  "env \<Rightarrow> string option \<Rightarrow> string option \<Rightarrow> string option \<Rightarrow> socket \<Rightarrow> server
     \<Rightarrow> response option \<times> server" where
  "ws_connect cfg clientId requestId token s st =
     (if \<not> truthy clientId then (Some (ctx_text ''Client ID is missing.'' 400 []), st)
      else if \<not> truthy requestId then (Some (ctx_text ''Request ID is missing.'' 400 []), st)
      else if truthy (CONN_TOKEN cfg) \<and> js_or token (Some []) \<noteq> CONN_TOKEN cfg
      then (Some (ctx_text ''Unauthorized'' 401 ''Unauthorized''), st)
      else (case requestTasks st (the requestId) of
              None \<Rightarrow> (Some (ctx_text ''Request not found.'' 404 []), st)
            | Some t \<Rightarrow> (None, resolve_task (the requestId) (UpstreamPort s) st)))"

text \<open>
  The body pump of lines 366-391 and the abort listener of lines 394-399 send to the
  socket of the record object the handler chose. One turn of the pump's loop is one
  \<^verbatim>\<open>reader.read()\<close>: a chunk, the end of the body, or an exception.
\<close>

datatype read_result = Chunk bytes | Done | Failed

definition pump :: "dispatch_ctx \<Rightarrow> read_result \<Rightarrow> server \<Rightarrow> server" where
  "pump ctx rr st =
     (case rr of
        Chunk d \<Rightarrow> send_to (ctx_client ctx)
                     (FrameMessage (ProxyRequestBodyFrame (ctx_requestId ctx) (Some d) False)) st
      | Done \<Rightarrow> send_to (ctx_client ctx)
                  (FrameMessage (ProxyRequestBodyFrame (ctx_requestId ctx) None True)) st
      | Failed \<Rightarrow> st)"

definition abort :: "dispatch_ctx \<Rightarrow> server \<Rightarrow> server" where
  "abort ctx st =
     send_to (ctx_client ctx) (FrameMessage (ProxyRequestAbortFrame (ctx_requestId ctx))) st"

subsection \<open>Runs of the server\<close>

text \<open>
  The server is driven by events: requests on its endpoints, the events of the control
  connections, the resumption of a suspended handler, a turn of a body pump and the
  abort of a public request. Times are in milliseconds. A run is a list of events
  applied to the initial state; an event whose listener throws leaves the state as the
  listener found it, since every \<^verbatim>\<open>throw\<close> above precedes the first write.

  Beside the module state a run keeps the handlers suspended at their \<^verbatim>\<open>await\<close>,
  the handlers that have returned (their pump and abort listener live on), and the
  replies given to the public callers.
\<close>

datatype event =
    Connect "string option" "string option"
  | Open socket string
  | Message socket string ws_data
  | Close socket string
  | WsConnect "string option" "string option" "string option" socket
  | Public nat request
  | Resume nat string
  | BodyRead string read_result
  | Abort string

record system =
  srv :: server
  suspended :: "dispatch_ctx list"
  returned :: "dispatch_ctx list"
  replies :: "reply list"

definition init_system :: system where
  "init_system = \<lparr>srv = init_server, suspended = [], returned = [], replies = []\<rparr>"

definition or_unchanged :: "error + server \<Rightarrow> server \<Rightarrow> server" where
  "or_unchanged r st = (case r of Inl e \<Rightarrow> st | Inr st' \<Rightarrow> st')"

definition handler_of :: "system \<Rightarrow> string \<Rightarrow> dispatch_ctx option" where
  "handler_of sys requestId =
     find (\<lambda>c. ctx_requestId c = requestId) (suspended sys @ returned sys)"

fun handle :: "regexp \<Rightarrow> env \<Rightarrow> event \<Rightarrow> system \<Rightarrow> system" where
  "handle RegExp cfg (Connect clientId token) sys =
     (case connect RegExp cfg clientId token (srv sys) of
        Inl e \<Rightarrow> sys
      | Inr (r, st) \<Rightarrow> sys\<lparr>srv := st\<rparr>)"
| "handle RegExp cfg (Open s clientId) sys = sys\<lparr>srv := socket_open s clientId (srv sys)\<rparr>"
| "handle RegExp cfg (Message s clientId d) sys =
     sys\<lparr>srv := or_unchanged (socket_message s clientId d (srv sys)) (srv sys)\<rparr>"
| "handle RegExp cfg (Close s clientId) sys =
     sys\<lparr>srv := or_unchanged (socket_close s clientId (srv sys)) (srv sys)\<rparr>"
| "handle RegExp cfg (WsConnect clientId requestId token s) sys =
     sys\<lparr>srv := snd (ws_connect cfg clientId requestId token s (srv sys))\<rparr>"
| "handle RegExp cfg (Public now req) sys =
     (case dispatch cfg now req (srv sys) of
        (Inl r, st) \<Rightarrow> sys\<lparr>srv := st, replies := replies sys @ [Respond r]\<rparr>
      | (Inr ctx, st) \<Rightarrow> sys\<lparr>srv := st, suspended := suspended sys @ [ctx]\<rparr>)"
| "handle RegExp cfg (Resume now requestId) sys =
     (case find (\<lambda>c. ctx_requestId c = requestId) (suspended sys) of
        None \<Rightarrow> sys
      | Some ctx \<Rightarrow>
          (case resume ctx now (srv sys) of
             None \<Rightarrow> sys
           | Some (rep, st) \<Rightarrow>
               sys\<lparr>srv := st, suspended := remove1 ctx (suspended sys),
                   returned := returned sys @ [ctx], replies := replies sys @ [rep]\<rparr>))"
| "handle RegExp cfg (BodyRead requestId rr) sys =
     (case handler_of sys requestId of
        None \<Rightarrow> sys
      | Some ctx \<Rightarrow> sys\<lparr>srv := pump ctx rr (srv sys)\<rparr>)"
| "handle RegExp cfg (Abort requestId) sys =
     (case handler_of sys requestId of
        None \<Rightarrow> sys
      | Some ctx \<Rightarrow> sys\<lparr>srv := abort ctx (srv sys)\<rparr>)"

definition run :: "regexp \<Rightarrow> env \<Rightarrow> event list \<Rightarrow> system \<Rightarrow> system" where
  "run RegExp cfg evs sys = foldl (\<lambda>s e. handle RegExp cfg e s) sys evs"

subsection \<open>Invariants of a run\<close>

text \<open>The request ids handed out so far.\<close>

definition issued :: "server \<Rightarrow> string set" where
  "issued st = toString32 ` {1..idPool st}"

text \<open>
  What every run keeps true: the ids in use have been issued; a pending task has no
  writer and its id is in no \<open>responses\<close> set; an id in the \<open>requests\<close> set of a record
  object has its task in the map and belongs to a suspended handler that chose this
  object; and the suspended handlers have different ids.
\<close>

definition ids_issued :: "system \<Rightarrow> bool" where
  "ids_issued sys =
     (dom (requestTasks (srv sys)) \<subseteq> issued (srv sys)
      \<and> dom (responseWriters (srv sys)) \<subseteq> issued (srv sys)
      \<and> (\<forall>r c. records (srv sys) r = Some c \<longrightarrow>
             requests c \<subseteq> issued (srv sys) \<and> responses c \<subseteq> issued (srv sys))
      \<and> ctx_requestId ` set (suspended sys) \<subseteq> issued (srv sys))"

definition pending_unanswered :: "system \<Rightarrow> bool" where
  "pending_unanswered sys =
     (\<forall>requestId. requestTasks (srv sys) requestId = Some None \<longrightarrow>
        responseWriters (srv sys) requestId = None
        \<and> (\<forall>r c. records (srv sys) r = Some c \<longrightarrow> requestId \<notin> responses c))"

definition requests_owned :: "system \<Rightarrow> bool" where
  "requests_owned sys =
     (\<forall>r c requestId. records (srv sys) r = Some c \<longrightarrow> requestId \<in> requests c \<longrightarrow>
        requestTasks (srv sys) requestId \<noteq> None
        \<and> (\<exists>ctx \<in> set (suspended sys). ctx_requestId ctx = requestId \<and> ctx_client ctx = r))"

definition invariant :: "system \<Rightarrow> bool" where
  "invariant sys =
     (ids_issued sys \<and> pending_unanswered sys \<and> requests_owned sys
      \<and> distinct (map ctx_requestId (suspended sys)))"

text \<open>
  What a listener of the control connections may do to the maps and the record objects:
  it creates and removes no task and makes none pending, it creates a writer or adds an
  id to a \<open>responses\<close> set only for a task that it leaves settled, it leaves the
  \<open>requests\<close> sets alone, and a record object it creates has empty sets.
\<close>

definition quiet_step :: "server \<Rightarrow> server \<Rightarrow> bool" where
  "quiet_step st st' =
     (idPool st' = idPool st
      \<and> dom (requestTasks st') = dom (requestTasks st)
      \<and> (\<forall>requestId. requestTasks st' requestId = Some None \<longrightarrow>
             requestTasks st requestId = Some None)
      \<and> (\<forall>requestId. responseWriters st' requestId \<noteq> None \<longrightarrow>
             responseWriters st requestId \<noteq> None
             \<or> (requestTasks st requestId \<noteq> None
                 \<and> requestTasks st' requestId \<noteq> Some None))
      \<and> (\<forall>r c'. records st' r = Some c' \<longrightarrow>
             (requests c' = {} \<and> responses c' = {})
             \<or> (\<exists>c. records st r = Some c \<and> requests c' = requests c
                   \<and> (\<forall>requestId \<in> responses c'.
                         requestId \<in> responses c
                         \<or> (requestTasks st requestId \<noteq> None
                             \<and> requestTasks st' requestId \<noteq> Some None)))))"

text \<open>An id that is in neither map: every frame that carries it is dropped.\<close>

definition forgotten :: "string \<Rightarrow> server \<Rightarrow> bool" where
  "forgotten requestId st =
     (requestTasks st requestId = None \<and> responseWriters st requestId = None)"

section \<open>The client\<close>

text \<open>
  The state of a \<^verbatim>\<open>ProxyClient\<close> (\<^verbatim>\<open>src/client/proxy.ts\<close>) that the request executor
  touches: the control socket with its ready state, the writers of the request bodies
  still streaming in, the frames handed to \<^verbatim>\<open>socket.send\<close>, the requests handed to
  \<^verbatim>\<open>fetch\<close> and the WebSocket tunnels opened.
\<close>

datatype readyState = CONNECTING | OPEN | CLOSING | CLOSED

record local_request =
  lr_requestId :: string
  lr_method :: string
  lr_path :: string
  lr_headers :: header_list
  lr_body :: bool

record local_response =
  res_status :: int
  res_statusText :: string
  res_headers :: header_list
  res_body :: bool

record proxy_client =
  this_socket :: "socket option"
  this_readyState :: readyState
  this_requests :: "string \<rightharpoonup> writer"
  sent :: "(socket \<times> response_frame) list"
  fetched :: "local_request list"
  tunnels :: "string list"

text \<open>\<^verbatim>\<open>respond\<close>, lines 338-345: the frame is sent only on an open socket.\<close>

definition respond :: "response_frame \<Rightarrow> proxy_client \<Rightarrow> proxy_client" where
  "respond frame st =
     (case this_socket st of
        None \<Rightarrow> st
      | Some s \<Rightarrow> if this_readyState st \<noteq> OPEN then st
                  else st\<lparr>sent := sent st @ [(s, frame)]\<rparr>)"

text \<open>
  \<^verbatim>\<open>processRequestMessage\<close>, lines 201-299, up to its \<^verbatim>\<open>await\<close>. \<open>url_host\<close> is the
  host of \<^verbatim>\<open>new URL(path, this.localUrl)\<close>. Frames of the types \<^verbatim>\<open>request\<close> and
  \<^verbatim>\<open>abort\<close> take neither branch.
\<close>

fun processRequestMessage :: "(string \<Rightarrow> string) \<Rightarrow> request_frame \<Rightarrow> proxy_client \<Rightarrow> proxy_client" where
  "processRequestMessage url_host (ProxyRequestHeaderFrame requestId meth p hs eof) st =
     (let hs1 = (if truthy (map_of hs ''x-forwarded-host'')
                 then headers_set ''host'' (url_host p) hs else hs)
      in if meth = ''GET'' \<and> map_of hs1 ''connection'' = Some ''Upgrade''
            \<and> map_of hs1 ''upgrade'' = Some ''websocket''
         then st\<lparr>tunnels := tunnels st @ [requestId]\<rparr>
         else (if eof then st
               else st\<lparr>this_requests := (this_requests st)
                         (requestId \<mapsto> \<lparr>chunks = [], closed = False\<rparr>)\<rparr>)
              \<lparr>fetched := fetched st @
                 [\<lparr>lr_requestId = requestId, lr_method = meth, lr_path = p,
                   lr_headers = hs1, lr_body = (\<not> eof)\<rparr>]\<rparr>)"
| "processRequestMessage url_host (ProxyRequestBodyFrame requestId data eof) st =
     (case this_requests st requestId of
        None \<Rightarrow> st
      | Some w \<Rightarrow>
          if eof then st\<lparr>this_requests := (this_requests st)(requestId := None)\<rparr>
          else (case data of
                  Some d \<Rightarrow> st\<lparr>this_requests := (this_requests st)
                                   (requestId \<mapsto> writer_write d w)\<rparr>
                | None \<Rightarrow> st))"
| "processRequestMessage url_host (ProxyRequestFrame requestId meth p hs b) st = st"
| "processRequestMessage url_host (ProxyRequestAbortFrame requestId) st = st"

text \<open>
  The rest of the \<^verbatim>\<open>header\<close> branch, lines 235-283. \<open>fetch_settled\<close> is what follows
  \<^verbatim>\<open>await Result.try(fetch(req))\<close>: the 502 frame when the fetch failed, and otherwise
  the header frame of the local response. \<open>body_read\<close> is one turn of the loop over the
  body, and \<open>forward_response\<close> the whole continuation for a given sequence of reads.
\<close>

definition fetch_settled :: "string \<Rightarrow> error + local_response \<Rightarrow> proxy_client \<Rightarrow> proxy_client" where
  "fetch_settled requestId result st =
     (case result of
        Inl e \<Rightarrow> respond (ProxyResponseHeaderFrame requestId 502 ''Bad Gateway'' [] True) st
      | Inr res \<Rightarrow>
          respond (ProxyResponseHeaderFrame requestId (res_status res) (res_statusText res)
                     (filter (\<lambda>kv. fst kv \<noteq> ''content-encoding'') (res_headers res))
                     (\<not> res_body res)) st)"

definition body_read :: "string \<Rightarrow> read_result \<Rightarrow> proxy_client \<Rightarrow> proxy_client" where
  "body_read requestId rr st =
     (case rr of
        Chunk d \<Rightarrow> respond (ProxyResponseBodyFrame requestId (Some d) False) st
      | Done \<Rightarrow> respond (ProxyResponseBodyFrame requestId None True) st
      | Failed \<Rightarrow> st)"

fun read_loop :: "string \<Rightarrow> read_result list \<Rightarrow> proxy_client \<Rightarrow> proxy_client" where
  "read_loop requestId [] st = st"
| "read_loop requestId (Chunk d # rs) st =
     read_loop requestId rs (body_read requestId (Chunk d) st)"
| "read_loop requestId (Done # rs) st = body_read requestId Done st"
| "read_loop requestId (Failed # rs) st = st"

definition forward_response ::
  "string \<Rightarrow> error + local_response \<Rightarrow> read_result list \<Rightarrow> proxy_client \<Rightarrow> proxy_client" where
  "forward_response requestId result reads st =
     (case result of
        Inl e \<Rightarrow> fetch_settled requestId result st
      | Inr res \<Rightarrow>
          if res_body res then read_loop requestId reads (fetch_settled requestId result st)
          else fetch_settled requestId result st)"

fun is_header_frame :: "response_frame \<Rightarrow> bool" where
  "is_header_frame (ProxyResponseHeaderFrame requestId code reason hs eof) = True"
| "is_header_frame (ProxyResponseBodyFrame requestId data eof) = False"

section \<open>The frame codec\<close>

text \<open>
  Modelled from the spec: \<^verbatim>\<open>pack\<close> and \<^verbatim>\<open>unpack\<close> are functions of the MessagePack
  library and not under \<^verbatim>\<open>src/\<close>. The spec says that a frame is encoded as a record
  with labelled fields and names MessagePack as the reference encoding: a frame is a
  map from its field names to its values, a string is a \<^verbatim>\<open>str\<close>, \<^verbatim>\<open>eof\<close> a boolean,
  the status an integer, bytes a \<^verbatim>\<open>bin\<close>, and the header list an array of two-element
  arrays. An optional field that is absent is left out of the map. Floating-point
  numbers and extension types are not part of the model, and a value that MessagePack
  cannot hold (a length of \<open>2^32\<close> or more, an integer outside 64 bits,
  \<^verbatim>\<open>undefined\<close>) is refused by \<open>pack\<close>.

  \<open>be k n\<close> are the \<open>k\<close> bytes of \<open>n\<close>, most significant first.
\<close>

definition byte :: "nat \<Rightarrow> 8 word" where
  "byte n = of_nat n"

fun be :: "nat \<Rightarrow> nat \<Rightarrow> bytes" where
  "be 0 n = []"
| "be (Suc k) n = be k (n div 256) @ [byte (n mod 256)]"


definition str_bytes :: "string \<Rightarrow> bytes" where
  "str_bytes s = map (\<lambda>c. byte (of_char c)) s"

definition bytes_str :: "bytes \<Rightarrow> string" where
  "bytes_str bs = map (\<lambda>b. char_of (unat b)) bs"

























section \<open>Inputs of the examples\<close>

text \<open>The \<^verbatim>\<open>test\<close> function of the expression \<^verbatim>\<open>/^\/public/\<close>, and a
  \<^verbatim>\<open>RegExp\<close> constructor for runs in which no rule is configured.\<close>

definition matches_public :: "string \<Rightarrow> bool" where
  "matches_public p = (take 7 p = ''/public'')"

definition no_RegExp :: regexp where
  "no_RegExp pattern flags = Inl SyntaxError"

definition plain_env :: env where
  "plain_env = \<lparr>AUTH_TOKEN = None, AUTH_RULE = None, CONN_TOKEN = None,
     FORWARD_HOST = None, BUFFER_REQUEST = None\<rparr>"

definition token_env :: env where
  "token_env = \<lparr>AUTH_TOKEN = Some ''secret'', AUTH_RULE = Some ''^/public'',
     CONN_TOKEN = None, FORWARD_HOST = None, BUFFER_REQUEST = None\<rparr>"

definition get_request :: "string \<Rightarrow> request" where
  "get_request p = \<lparr>req_method = ''GET'', path = p, protocol = ''https:'',
     host = ''example.org'', pathname = p, search = [], req_headers = [],
     remoteAddress = None, req_body = None\<rparr>"


text \<open>A server with the client \<^verbatim>\<open>a\<close> and one request for \<^verbatim>\<open>/x\<close> sent to it.\<close>

definition waiting_server :: server where
  "waiting_server =
     snd (dispatch plain_env 0 (get_request ''/x'') (socket_open 10 ''a'' init_server))"

text \<open>A client whose control socket has closed while a local request was in flight,
  and a bodyless local response.\<close>

definition closed_client :: proxy_client where
  "closed_client =
     \<lparr>this_socket = Some 1, this_readyState = CLOSED, this_requests = Map.empty,
      sent = [], fetched = [], tunnels = []\<rparr>"

definition open_client :: proxy_client where
  "open_client = closed_client\<lparr>this_readyState := OPEN\<rparr>"

definition ok_response :: local_response where
  "ok_response =
     \<lparr>res_status = 200, res_statusText = ''OK'',
      res_headers = [(''content-encoding'', ''gzip''), (''content-type'', ''text/plain'')],
      res_body = True\<rparr>"

text \<open>Two runs with the client \<^verbatim>\<open>a\<close> and one request for \<^verbatim>\<open>/x\<close>: in the first the
  client has not answered; in the second its header frame with \<^verbatim>\<open>eof = false\<close> has
  arrived and the handler has not yet resumed. \<open>first_ctx\<close> is what the handler of
  the request keeps.\<close>

definition waiting_run :: "event list" where
  "waiting_run = [Open 10 ''a'', Public 0 (get_request ''/x'')]"

definition streaming_run :: "event list" where
  "streaming_run = waiting_run @
     [Message 10 ''a'' (Binary (JObject
        [(''requestId'', JString ''1''), (''type'', JString ''header''),
         (''status'', JNumber 200), (''statusText'', JString ''OK''),
         (''headers'', JArray []), (''eof'', JBoolean False)]))]"

definition first_ctx :: dispatch_ctx where
  "first_ctx = \<lparr>ctx_requestId = ''1'', ctx_client = 0, ctx_respondBody = True,
     ctx_started = 0\<rparr>"

definition streaming_server :: server where
  "streaming_server =
     waiting_server
       \<lparr>records := [0 \<mapsto> \<lparr>socket = 10, requests = {''1''}, responses = {''1''}\<rparr>],
        requestTasks := [''1'' \<mapsto> Some (HttpResponse
           \<lparr>status = 200, statusText = ''OK'', headers = [], body = StreamBody ''1''\<rparr>)],
        responseWriters := [''1'' \<mapsto> \<lparr>chunks = [], closed = False\<rparr>]\<rparr>"

section \<open>Properties of the admission check\<close>

lemma dispatch_unauthorized:
  "unauthorized cfg st req \<Longrightarrow>
     dispatch cfg now req st =
       (Inl (text_response (respondBody req) ''Unauthorized'' 401 ''Unauthorized''), st)"
  by (simp add: dispatch_def)

lemma dispatch_admitted_not_401:
  "\<not> unauthorized cfg st req \<Longrightarrow>
     fst (dispatch cfg now req st) \<noteq>
       Inl (text_response b ''Unauthorized'' 401 ''Unauthorized'')"
  by (simp add: dispatch_def Let_def text_response_def)

lemma unauthorized_response:
  "text_response (respondBody req) ''Unauthorized'' 401 ''Unauthorized'' =
     \<lparr>status = 401, statusText = ''Unauthorized'', headers = [],
      body = (if req_method req \<in> set [''HEAD'', ''OPTIONS''] then NullBody
              else TextBody ''Unauthorized'')\<rparr>"
  by (simp add: text_response_def respondBody_def)

lemma token_env_mismatch:
  "truthy (AUTH_TOKEN token_env) \<and> bearer (get_request p) \<noteq> AUTH_TOKEN token_env"
  by (simp add: token_env_def get_request_def bearer_def js_or_def truthy_def header_def)

text \<open>
  Claim C1, as the code has it. When \<^verbatim>\<open>AUTH_TOKEN\<close> is set and the credential of the
  request differs from it, the dispatcher answers 401 with the body
  \<^verbatim>\<open>Unauthorized\<close> (no body for \<^verbatim>\<open>HEAD\<close> and \<^verbatim>\<open>OPTIONS\<close>) exactly when no rule has
  been compiled or the compiled \<^verbatim>\<open>AUTH_RULE\<close> matches the path; a path that the rule
  does not match passes without a credential.
\<close>

theorem auth_rule_selects_guarded_paths:
  assumes "truthy (AUTH_TOKEN cfg)" and "bearer req \<noteq> AUTH_TOKEN cfg"
  shows "(fst (dispatch cfg now req st) =
            Inl \<lparr>status = 401, statusText = ''Unauthorized'', headers = [],
                 body = (if req_method req \<in> set [''HEAD'', ''OPTIONS''] then NullBody
                         else TextBody ''Unauthorized'')\<rparr>)
         = (case authRule st of None \<Rightarrow> True | Some rule \<Rightarrow> rule (path req))"
proof (cases "unauthorized cfg st req")
  case True
  then have "(case authRule st of None \<Rightarrow> True | Some rule \<Rightarrow> rule (path req))"
    by (simp add: unauthorized_def passAuth_def split: option.splits)
  moreover have "fst (dispatch cfg now req st) =
      Inl (text_response (respondBody req) ''Unauthorized'' 401 ''Unauthorized'')"
    using True by (simp add: dispatch_unauthorized)
  ultimately show ?thesis
    unfolding unauthorized_response by simp
next
  case False
  then have "\<not> (case authRule st of None \<Rightarrow> True | Some rule \<Rightarrow> rule (path req))"
    using assms by (simp add: unauthorized_def passAuth_def split: option.splits)
  moreover have "fst (dispatch cfg now req st) \<noteq>
      Inl (text_response (respondBody req) ''Unauthorized'' 401 ''Unauthorized'')"
    using False by (rule dispatch_admitted_not_401)
  ultimately show ?thesis
    unfolding unauthorized_response by simp
qed

text \<open>The theorem at a request for \<^verbatim>\<open>/private\<close> under the rule \<^verbatim>\<open>/^\/public/\<close>: the
  path does not match and the request is not answered 401.\<close>

theorem auth_rule_selects_guarded_paths_witness:
  "truthy (AUTH_TOKEN token_env)
   \<and> bearer (get_request ''/private'') \<noteq> AUTH_TOKEN token_env
   \<and> \<not> matches_public ''/private''
   \<and> fst (dispatch token_env 0 (get_request ''/private'')
            (init_server\<lparr>authRule := Some matches_public\<rparr>))
       \<noteq> Inl \<lparr>status = 401, statusText = ''Unauthorized'', headers = [],
               body = TextBody ''Unauthorized''\<rparr>"
  using auth_rule_selects_guarded_paths [of token_env "get_request ''/private''" 0
      "init_server\<lparr>authRule := Some matches_public\<rparr>"] token_env_mismatch [of "''/private''"]
  by (simp add: matches_public_def get_request_def)

text \<open>Against claim C1 as stated: under the rule \<^verbatim>\<open>/^\/public/\<close> a request for
  \<^verbatim>\<open>/public/a\<close> without a credential matches the rule and is answered 401.\<close>

theorem matching_path_is_rejected:
  "truthy (AUTH_TOKEN token_env)
   \<and> bearer (get_request ''/public/a'') \<noteq> AUTH_TOKEN token_env
   \<and> matches_public (path (get_request ''/public/a''))
   \<and> fst (dispatch token_env 0 (get_request ''/public/a'')
            (init_server\<lparr>authRule := Some matches_public\<rparr>))
       = Inl \<lparr>status = 401, statusText = ''Unauthorized'', headers = [],
              body = TextBody ''Unauthorized''\<rparr>"
  by (simp add: dispatch_def unauthorized_def passAuth_def bearer_def js_or_def truthy_def
      header_def matches_public_def text_response_def respondBody_def init_server_def
      token_env_def get_request_def)


section \<open>Properties of the client registry\<close>

lemma set_own_entries: "set (own_entries obj) = set obj"
  by (auto simp: own_entries_def)

lemma own_entries_no_index:
  "list_all (\<lambda>kv. \<not> is_array_index (fst kv)) obj \<Longrightarrow> own_entries obj = obj"
  by (simp add: own_entries_def list_all_iff)

lemma map_filter_empty: "(List.map_filter f xs = []) = (\<forall>x \<in> set xs. f x = None)"
  by (induction xs) (auto simp: List.map_filter_simps split: option.splits)

lemma live_clients_empty:
  "(live_clients st = []) = list_all (\<lambda>kv. snd kv = None) (clients st)"
  by (auto simp: live_clients_def Object_values_def map_filter_empty set_own_entries
      list_all_iff)

lemma service_unavailable_response:
  "text_response (respondBody req) ''No proxy client'' 503 ''Service Unavailable'' =
     \<lparr>status = 503, statusText = ''Service Unavailable'', headers = [],
      body = (if req_method req \<in> set [''HEAD'', ''OPTIONS''] then NullBody
              else TextBody ''No proxy client'')\<rparr>"
  by (simp add: text_response_def respondBody_def)

text \<open>
  Claim C8, as the code has it. A public request that passes the admission check while
  every slot of the registry holds a tombstone (or the registry is empty) is answered
  503 with the body \<^verbatim>\<open>No proxy client\<close>, and with no body when the method is
  \<^verbatim>\<open>HEAD\<close> or \<^verbatim>\<open>OPTIONS\<close>; the state is as before, so no request id is allocated,
  no task is registered and no frame is sent.
\<close>

theorem no_live_client_503:
  assumes "\<not> unauthorized cfg st req"
    and "list_all (\<lambda>kv. snd kv = None) (clients st)"
  shows "dispatch cfg now req st =
           (Inl \<lparr>status = 503, statusText = ''Service Unavailable'', headers = [],
                 body = (if req_method req \<in> set [''HEAD'', ''OPTIONS''] then NullBody
                         else TextBody ''No proxy client'')\<rparr>, st)
         \<and> idPool (snd (dispatch cfg now req st)) = idPool st
         \<and> requestTasks (snd (dispatch cfg now req st)) = requestTasks st
         \<and> outbox (snd (dispatch cfg now req st)) = outbox st"
proof -
  have "live_clients st = []"
    using assms(2) by (simp add: live_clients_empty)
  then have "dispatch cfg now req st =
      (Inl (text_response (respondBody req) ''No proxy client'' 503 ''Service Unavailable''), st)"
    using assms(1) by (simp add: dispatch_def)
  then show ?thesis
    unfolding service_unavailable_response by simp
qed


text \<open>The theorem at a \<^verbatim>\<open>HEAD\<close> request while the only slot is a
  tombstone.\<close>

theorem no_live_client_503_witness:
  "\<not> unauthorized plain_env (init_server\<lparr>clients := [(''a'', None)]\<rparr>)
       ((get_request ''/x'')\<lparr>req_method := ''HEAD''\<rparr>)
   \<and> list_all (\<lambda>kv. snd kv = None) (clients (init_server\<lparr>clients := [(''a'', None)]\<rparr>))
   \<and> dispatch plain_env 0 ((get_request ''/x'')\<lparr>req_method := ''HEAD''\<rparr>)
         (init_server\<lparr>clients := [(''a'', None)]\<rparr>)
       = (Inl \<lparr>status = 503, statusText = ''Service Unavailable'', headers = [],
               body = NullBody\<rparr>, init_server\<lparr>clients := [(''a'', None)]\<rparr>)"
  using no_live_client_503 [of plain_env "init_server\<lparr>clients := [(''a'', None)]\<rparr>"
      "(get_request ''/x'')\<lparr>req_method := ''HEAD''\<rparr>" 0]
  by (simp add: unauthorized_def plain_env_def truthy_def get_request_def)

text \<open>Against claim C8 as stated: with no client at all, a request
  without the configured credential is answered 401, not 503; the admission check
  comes first.\<close>

theorem unauthenticated_request_gets_401_not_503:
  "list_all (\<lambda>kv. snd kv = None) (clients init_server)
   \<and> live_clients init_server = []
   \<and> dispatch token_env 0 (get_request ''/x'') init_server
       = (Inl \<lparr>status = 401, statusText = ''Unauthorized'', headers = [],
               body = TextBody ''Unauthorized''\<rparr>, init_server)"
  by (simp add: dispatch_def unauthorized_def passAuth_def bearer_def js_or_def truthy_def
      header_def text_response_def respondBody_def init_server_def token_env_def
      get_request_def live_clients_def Object_values_def own_entries_def)

section \<open>Properties of the selection\<close>

lemma dispatch_admitted:
  assumes "\<not> unauthorized cfg st req" and "live_clients st \<noteq> []"
  shows "dispatch cfg now req st =
     (Inr \<lparr>ctx_requestId = toString32 (Suc (idPool st)),
           ctx_client = live_clients st ! (crc32 (caller_ip req) mod length (live_clients st)),
           ctx_respondBody = respondBody req, ctx_started = now\<rparr>,
      send_to (live_clients st ! (crc32 (caller_ip req) mod length (live_clients st)))
        (FrameMessage (first_frame cfg req (toString32 (Suc (idPool st)))
           (forward_headers cfg req (caller_ip req))))
        (update_record (live_clients st ! (crc32 (caller_ip req) mod length (live_clients st)))
           (\<lambda>c. c\<lparr>requests := insert (toString32 (Suc (idPool st))) (requests c)\<rparr>)
           (st\<lparr>idPool := Suc (idPool st),
               requestTasks := (requestTasks st)(toString32 (Suc (idPool st)) \<mapsto> None)\<rparr>)))"
  using assms by (simp add: dispatch_def Let_def)

lemma outbox_update_record [simp]: "outbox (update_record r f st) = outbox st"
  by (simp add: update_record_def split: option.splits)

lemma records_update_record:
  "records (update_record r f st) =
     (case records st r of None \<Rightarrow> records st | Some c \<Rightarrow> (records st)(r \<mapsto> f c))"
  by (simp add: update_record_def split: option.splits)

text \<open>
  Claim C4, as the code has it. For an admitted request arriving while a client is live,
  the handler picks the record at position \<open>crc32 ip mod N\<close> of the live records in the
  order of \<^verbatim>\<open>Object.values(clients)\<close>, tombstones left out, and the first frame, the
  body frames and the abort frame are sent to the socket of that record and to no other.
  \<^verbatim>\<open>Object.values\<close> follows the order of insertion when no client id is an array
  index; ids that are array indices come first, in numeric order.
\<close>

theorem selected_client_receives_frames:
  assumes "\<not> unauthorized cfg st req"
    and "live_clients st \<noteq> []"
    and "records st (live_clients st ! (crc32 (caller_ip req) mod length (live_clients st)))
           = Some c"
  shows "\<exists>ctx st'. dispatch cfg now req st = (Inr ctx, st')
           \<and> ctx_client ctx
               = List.map_filter (\<lambda>v. v) (Object_values (clients st))
                   ! (crc32 (caller_ip req)
                        mod length (List.map_filter (\<lambda>v. v) (Object_values (clients st))))
           \<and> outbox st' = outbox st @
               [(socket c, FrameMessage (first_frame cfg req (ctx_requestId ctx)
                                           (forward_headers cfg req (caller_ip req))))]
           \<and> (\<forall>rr. outbox (pump ctx rr st') = outbox st' \<or>
                 (\<exists>m. outbox (pump ctx rr st') = outbox st' @ [(socket c, m)]))
           \<and> (\<exists>m. outbox (abort ctx st') = outbox st' @ [(socket c, m)])
           \<and> (list_all (\<lambda>kv. \<not> is_array_index (fst kv)) (clients st) \<longrightarrow>
                 Object_values (clients st) = map snd (clients st))"
proof -
  let ?r = "live_clients st ! (crc32 (caller_ip req) mod length (live_clients st))"
  let ?st' = "snd (dispatch cfg now req st)"
  have d: "dispatch cfg now req st = (fst (dispatch cfg now req st), ?st')"
    by simp
  have rec: "records ?st' ?r
      = Some (c\<lparr>requests := insert (toString32 (Suc (idPool st))) (requests c)\<rparr>)"
    using assms by (simp add: dispatch_admitted send_to_def send_def records_update_record)
  have out: "outbox ?st' = outbox st @
      [(socket c, FrameMessage (first_frame cfg req (toString32 (Suc (idPool st)))
          (forward_headers cfg req (caller_ip req))))]"
    using assms by (simp add: dispatch_admitted send_to_def send_def records_update_record)
  have to: "send_to ?r m ?st' = send (socket c) m ?st'" for m
    using rec by (simp add: send_to_def)
  show ?thesis
    using assms(1,2) out to
    by (auto simp: dispatch_admitted pump_def abort_def send_def live_clients_def
        Object_values_def own_entries_no_index split: read_result.splits)
qed


lemma toString32_1: "toString32 (Suc 0) = ''1''"
  by (simp add: toString32.simps digit32_def)

lemma crc32_empty: "crc32 [] = 0"
  by (simp add: crc32_def)

lemma caller_ip_get_request: "caller_ip (get_request p) = []"
  by (simp add: caller_ip_def get_request_def header_def truthy_def)

lemma not_index_a: "\<not> is_array_index ''a''" "\<not> is_array_index ''b''"
  by (simp_all add: is_array_index_def is_digit_def)

lemma is_index_1: "is_array_index ''1''" "is_array_index ''2''"
  by (simp_all add: is_array_index_def is_digit_def digits_value_def)

lemma clients_a_b:
  "clients (socket_open 11 ''b'' (socket_open 10 ''a'' init_server))
     = [(''a'', Some 0), (''b'', Some 1)]"
  by (simp add: socket_open_def obj_set_def init_server_def)

lemma clients_2_1:
  "clients (socket_open 11 ''1'' (socket_open 10 ''2'' init_server))
     = [(''2'', Some 0), (''1'', Some 1)]"
  by (simp add: socket_open_def obj_set_def init_server_def)

lemma records_two_opens:
  "records (socket_open 11 k2 (socket_open 10 k1 init_server))
     = [0 \<mapsto> \<lparr>socket = 10, requests = {}, responses = {}\<rparr>,
        1 \<mapsto> \<lparr>socket = 11, requests = {}, responses = {}\<rparr>]"
  by (simp add: socket_open_def init_server_def)

lemma live_clients_a_b:
  "live_clients (socket_open 11 ''b'' (socket_open 10 ''a'' init_server)) = [0, 1]"
  by (simp add: live_clients_def clients_a_b Object_values_def own_entries_def not_index_a
      List.map_filter_simps)

lemma live_clients_2_1:
  "live_clients (socket_open 11 ''1'' (socket_open 10 ''2'' init_server)) = [1, 0]"
  by (simp add: live_clients_def clients_2_1 Object_values_def own_entries_def is_index_1
      digits_value_def List.map_filter_simps)

lemma socket_open_fields:
  "idPool (socket_open s k st) = idPool st"
  "outbox (socket_open s k st) = outbox st"
  "requestTasks (socket_open s k st) = requestTasks st"
  "responseWriters (socket_open s k st) = responseWriters st"
  "authRule (socket_open s k st) = authRule st"
  by (simp_all add: socket_open_def)

lemma init_server_fields:
  "idPool init_server = 0" "outbox init_server = []" "requestTasks init_server = Map.empty"
  "responseWriters init_server = Map.empty" "authRule init_server = None"
  "clients init_server = []" "records init_server = Map.empty" "nextRef init_server = 0"
  by (simp_all add: init_server_def)

lemma first_frame_get_request:
  "first_frame plain_env (get_request p) requestId (forward_headers plain_env (get_request p) [])
     = ProxyRequestHeaderFrame requestId ''GET'' p
         [(''x-forwarded-proto'', ''https''), (''x-forwarded-host'', ''example.org'')] True"
  by (simp add: first_frame_def forward_headers_def headers_has_def headers_set_def
      env_flag_def plain_env_def get_request_def)

lemma plain_env_admits: "\<not> unauthorized plain_env st req"
  by (simp add: unauthorized_def plain_env_def truthy_def)

text \<open>The theorem with the clients \<^verbatim>\<open>a\<close> and \<^verbatim>\<open>b\<close> connected in this
  order and a caller without an address: position 0, the socket of \<^verbatim>\<open>a\<close>.\<close>

theorem selected_client_receives_frames_witness:
  "\<not> unauthorized plain_env (socket_open 11 ''b'' (socket_open 10 ''a'' init_server))
       (get_request ''/x'')
   \<and> live_clients (socket_open 11 ''b'' (socket_open 10 ''a'' init_server)) = [0, 1]
   \<and> crc32 (caller_ip (get_request ''/x'')) mod 2 = 0
   \<and> records (socket_open 11 ''b'' (socket_open 10 ''a'' init_server)) 0
       = Some \<lparr>socket = 10, requests = {}, responses = {}\<rparr>
   \<and> ctx_client (projr (fst (dispatch plain_env 0 (get_request ''/x'')
         (socket_open 11 ''b'' (socket_open 10 ''a'' init_server))))) = 0
   \<and> map fst (outbox (snd (dispatch plain_env 0 (get_request ''/x'')
         (socket_open 11 ''b'' (socket_open 10 ''a'' init_server))))) = [10]"
  using selected_client_receives_frames [of plain_env
      "socket_open 11 ''b'' (socket_open 10 ''a'' init_server)" "get_request ''/x''"
      "\<lparr>socket = 10, requests = {}, responses = {}\<rparr>" 0]
  by (simp add: plain_env_admits live_clients_a_b caller_ip_get_request crc32_empty
      records_two_opens dispatch_admitted send_to_def send_def records_update_record
      socket_open_fields init_server_fields flip: live_clients_def)

text \<open>Against claim C4 as stated: the client \<^verbatim>\<open>2\<close> connects before the client
  \<^verbatim>\<open>1\<close>. Position 0 in the order of insertion is the record of \<^verbatim>\<open>2\<close> (socket 10),
  but the frame goes to socket 11, the record of \<^verbatim>\<open>1\<close>.\<close>

theorem index_like_ids_precede_insertion_order:
  "map fst (clients (socket_open 11 ''1'' (socket_open 10 ''2'' init_server))) = [''2'', ''1'']
   \<and> List.map_filter snd (clients (socket_open 11 ''1'' (socket_open 10 ''2'' init_server)))
       = [0, 1]
   \<and> crc32 (caller_ip (get_request ''/x'')) mod 2 = 0
   \<and> map_option socket (records (socket_open 11 ''1'' (socket_open 10 ''2'' init_server)) 0)
       = Some 10
   \<and> outbox (snd (dispatch plain_env 0 (get_request ''/x'')
         (socket_open 11 ''1'' (socket_open 10 ''2'' init_server))))
       = [(11, FrameMessage (ProxyRequestHeaderFrame ''1'' ''GET'' ''/x''
            [(''x-forwarded-proto'', ''https''), (''x-forwarded-host'', ''example.org'')]
            True))]"
  by (simp add: dispatch_admitted plain_env_admits live_clients_2_1 clients_2_1
      caller_ip_get_request crc32_empty records_two_opens List.map_filter_simps
      send_to_def send_def records_update_record toString32_1 first_frame_get_request
      socket_open_fields init_server_fields)


section \<open>Properties of the control connection\<close>





lemma obj_get_obj_update:
  "k \<in> fst ` set obj \<Longrightarrow> obj_get (obj_update k v obj) k = Some v"
  by (induction obj) (auto simp: obj_get_def obj_update_def)

lemma obj_get_obj_update_other:
  "k' \<noteq> k \<Longrightarrow> obj_get (obj_update k v obj) k' = obj_get obj k'"
  by (induction obj) (auto simp: obj_get_def obj_update_def)

lemma obj_get_in_keys: "obj_get obj k = Some v \<Longrightarrow> k \<in> fst ` set obj"
  by (auto simp: obj_get_def dest: map_of_SomeD intro: rev_image_eqI)

lemma obj_set_present: "k \<in> fst ` set obj \<Longrightarrow> obj_set k v obj = obj_update k v obj"
  by (simp add: obj_set_def)

lemma keys_obj_update [simp]: "fst ` set (obj_update k v obj) = fst ` set obj"
  by (induction obj) (auto simp: obj_update_def)

lemma socket_close_live:
  assumes "obj_get (clients st) clientId = Some (Some r)" and "records st r = Some c"
  shows "socket_close s clientId st =
     Inr (st\<lparr>requestTasks :=
               (\<lambda>requestId.
                  if requestId \<in> requests c
                  then map_option (resolve (HttpResponse internal_server_error))
                         (requestTasks st requestId)
                  else requestTasks st requestId),
             responseWriters :=
               (\<lambda>requestId.
                  if requestId \<in> responses c
                  then map_option writer_close (responseWriters st requestId)
                  else responseWriters st requestId),
             clients := obj_update clientId None (clients st)\<rparr>)"
  using assms obj_get_in_keys [OF assms(1)] by (simp add: socket_close_def obj_set_present)




lemma socket_open_slot:
  assumes "clientId \<in> fst ` set (clients st)"
  shows "obj_get (clients (socket_open s clientId st)) clientId = Some (Some (nextRef st))"
  using assms by (simp add: socket_open_def obj_set_present obj_get_obj_update)

text \<open>
  Claim C10. When a connection opens for a client id whose slot holds a record, the
  slot is overwritten with a fresh record with empty sets. And whichever connection \<open>s\<close>
  of that id closes later, the listener works on the record \<open>c\<close> that is in the slot
  then: it resolves the tasks of the requests of \<open>c\<close> with 500, leaves the other tasks
  alone, and puts \<^verbatim>\<open>null\<close> in the slot.
\<close>

theorem reopen_overwrites_and_close_drains_occupant:
  assumes "obj_get (clients st) clientId = Some (Some r1)"
  shows "obj_get (clients (socket_open s2 clientId st)) clientId = Some (Some (nextRef st))
     \<and> records (socket_open s2 clientId st) (nextRef st)
         = Some \<lparr>socket = s2, requests = {}, responses = {}\<rparr>
     \<and> (\<forall>st' r c s.
           obj_get (clients st') clientId = Some (Some r) \<and> records st' r = Some c \<longrightarrow>
           socket_close s clientId st' =
             Inr (st'\<lparr>requestTasks :=
                        (\<lambda>requestId.
                           if requestId \<in> requests c
                           then map_option (resolve (HttpResponse
                                    \<lparr>status = 500, statusText = ''Internal Server Error'',
                                     headers = [], body = NullBody\<rparr>))
                                  (requestTasks st' requestId)
                           else requestTasks st' requestId),
                      responseWriters :=
                        (\<lambda>requestId.
                           if requestId \<in> responses c
                           then map_option writer_close (responseWriters st' requestId)
                           else responseWriters st' requestId),
                      clients := obj_update clientId None (clients st')\<rparr>)
           \<and> obj_get (obj_update clientId None (clients st')) clientId = Some None)"
proof -
  have "clientId \<in> fst ` set (clients st)"
    using assms by (rule obj_get_in_keys)
  then have "obj_get (clients (socket_open s2 clientId st)) clientId = Some (Some (nextRef st))"
    by (rule socket_open_slot)
  moreover have "records (socket_open s2 clientId st) (nextRef st)
      = Some \<lparr>socket = s2, requests = {}, responses = {}\<rparr>"
    by (simp add: socket_open_def)
  moreover have "socket_close s clientId st' =
      Inr (st'\<lparr>requestTasks :=
                 (\<lambda>requestId.
                    if requestId \<in> requests c
                    then map_option (resolve (HttpResponse
                             \<lparr>status = 500, statusText = ''Internal Server Error'',
                              headers = [], body = NullBody\<rparr>))
                           (requestTasks st' requestId)
                    else requestTasks st' requestId),
               responseWriters :=
                 (\<lambda>requestId.
                    if requestId \<in> responses c
                    then map_option writer_close (responseWriters st' requestId)
                    else responseWriters st' requestId),
               clients := obj_update clientId None (clients st')\<rparr>)
      \<and> obj_get (obj_update clientId None (clients st')) clientId = Some None"
    if "obj_get (clients st') clientId = Some (Some r)" and "records st' r = Some c"
    for st' r c s
    using socket_close_live [OF that, of s] obj_get_in_keys [OF that(1)]
    unfolding internal_server_error_def by (simp add: obj_get_obj_update)
  ultimately show ?thesis
    by blast
qed

lemma one_client:
  "socket_open 10 ''a'' init_server =
     \<lparr>authRule = None, idPool = 0, clients = [(''a'', Some 0)],
      records = [0 \<mapsto> \<lparr>socket = 10, requests = {}, responses = {}\<rparr>],
      nextRef = Suc 0, requestTasks = Map.empty, responseWriters = Map.empty, outbox = []\<rparr>"
  by (simp add: socket_open_def init_server_def obj_set_def)

lemma live_one_client: "live_clients (socket_open 10 ''a'' init_server) = [0]"
  by (simp add: one_client live_clients_def Object_values_def own_entries_def not_index_a
      List.map_filter_simps)

lemma waiting_server_eq:
  "waiting_server =
     \<lparr>authRule = None, idPool = Suc 0, clients = [(''a'', Some 0)],
      records = [0 \<mapsto> \<lparr>socket = 10, requests = {''1''}, responses = {}\<rparr>],
      nextRef = Suc 0, requestTasks = [''1'' \<mapsto> None], responseWriters = Map.empty,
      outbox = [(10, FrameMessage (ProxyRequestHeaderFrame ''1'' ''GET'' ''/x''
         [(''x-forwarded-proto'', ''https''), (''x-forwarded-host'', ''example.org'')] True))]\<rparr>"
  unfolding waiting_server_def
  by (simp add: dispatch_admitted plain_env_admits live_one_client caller_ip_get_request
      crc32_empty first_frame_get_request)
    (simp add: one_client toString32_1 update_record_def send_to_def send_def)

text \<open>The theorem on a run in which the client \<^verbatim>\<open>a\<close> has one request pending on
  its first connection, opens a second connection, and the first one closes: the
  request of the first record stays pending and the slot is \<^verbatim>\<open>null\<close>, with the second
  connection still open.\<close>

theorem reopen_overwrites_and_close_drains_occupant_witness:
  "obj_get (clients waiting_server) ''a'' = Some (Some 0)
   \<and> records waiting_server 0 = Some \<lparr>socket = 10, requests = {''1''}, responses = {}\<rparr>
   \<and> requestTasks waiting_server ''1'' = Some None
   \<and> obj_get (clients (socket_open 11 ''a'' waiting_server)) ''a'' = Some (Some 1)
   \<and> records (socket_open 11 ''a'' waiting_server) 1
       = Some \<lparr>socket = 11, requests = {}, responses = {}\<rparr>
   \<and> requestTasks (projr (socket_close 10 ''a'' (socket_open 11 ''a'' waiting_server))) ''1''
       = Some None
   \<and> obj_get (clients (projr (socket_close 10 ''a'' (socket_open 11 ''a'' waiting_server))))
         ''a'' = Some None"
  using reopen_overwrites_and_close_drains_occupant [of waiting_server "''a''" 0 11]
  by (simp add: waiting_server_eq socket_open_def socket_close_def obj_get_def obj_set_def
      obj_update_def)

section \<open>Properties of the client\<close>

lemma respond_open:
  "this_socket st = Some s \<Longrightarrow> this_readyState st = OPEN \<Longrightarrow>
     respond frame st = st\<lparr>sent := sent st @ [(s, frame)]\<rparr>"
  by (simp add: respond_def)

lemma read_loop_open:
  "this_socket st = Some s \<Longrightarrow> this_readyState st = OPEN \<Longrightarrow>
     \<exists>bodies. sent (read_loop requestId reads st) = sent st @ bodies
       \<and> list_all (\<lambda>m. fst m = s \<and> \<not> is_header_frame (snd m)) bodies"
proof (induction requestId reads st rule: read_loop.induct)
  case (2 requestId d rs st)
  let ?st = "body_read requestId (Chunk d) st"
  have st: "?st = st\<lparr>sent := sent st @ [(s, ProxyResponseBodyFrame requestId (Some d) False)]\<rparr>"
    using 2(2,3) by (simp add: body_read_def respond_open)
  then have "this_socket ?st = Some s" "this_readyState ?st = OPEN"
    using 2(2,3) by simp_all
  from 2(1) [OF this] obtain bodies where
    "sent (read_loop requestId rs ?st) = sent ?st @ bodies"
    "list_all (\<lambda>m. fst m = s \<and> \<not> is_header_frame (snd m)) bodies"
    by blast
  then have "sent (read_loop requestId (Chunk d # rs) st)
        = sent st @ ((s, ProxyResponseBodyFrame requestId (Some d) False) # bodies)
      \<and> list_all (\<lambda>m. fst m = s \<and> \<not> is_header_frame (snd m))
          ((s, ProxyResponseBodyFrame requestId (Some d) False) # bodies)"
    using st by simp
  then show ?case by blast
next
  case (3 requestId rs st)
  then have "sent (read_loop requestId (Done # rs) st)
        = sent st @ [(s, ProxyResponseBodyFrame requestId None True)]
      \<and> list_all (\<lambda>m. fst m = s \<and> \<not> is_header_frame (snd m))
          [(s, ProxyResponseBodyFrame requestId None True)]"
    by (simp add: body_read_def respond_open)
  then show ?case by blast
qed simp_all

text \<open>
  Claim C9, as the code has it. When the fetch of the local origin succeeds and the
  control socket is open, the executor sends one header frame with the status, the
  status text and the headers of the local response without any
  \<^verbatim>\<open>content-encoding\<close> entry, and with \<^verbatim>\<open>eof\<close> true exactly when the response has
  no body; every frame after it is a body frame. (The socket is taken to stay open
  while the body is read.)
\<close>

theorem fetched_response_header_frame:
  assumes "this_socket st = Some s" and "this_readyState st = OPEN"
  shows "\<exists>bodies.
           sent (forward_response requestId (Inr res) reads st) =
             sent st @
             (s, ProxyResponseHeaderFrame requestId (res_status res) (res_statusText res)
                   (filter (\<lambda>kv. fst kv \<noteq> ''content-encoding'') (res_headers res))
                   (\<not> res_body res)) # bodies
           \<and> list_all (\<lambda>m. fst m = s \<and> \<not> is_header_frame (snd m)) bodies
           \<and> (res_body res \<or> bodies = [])
           \<and> ''content-encoding'' \<notin>
                fst ` set (filter (\<lambda>kv. fst kv \<noteq> ''content-encoding'') (res_headers res))"
proof -
  let ?frame = "ProxyResponseHeaderFrame requestId (res_status res) (res_statusText res)
                   (filter (\<lambda>kv. fst kv \<noteq> ''content-encoding'') (res_headers res))
                   (\<not> res_body res)"
  let ?st = "fetch_settled requestId (Inr res) st"
  have st: "?st = st\<lparr>sent := sent st @ [(s, ?frame)]\<rparr>"
    using assms by (simp add: fetch_settled_def respond_open)
  then have "this_socket ?st = Some s" "this_readyState ?st = OPEN"
    using assms by simp_all
  from read_loop_open [OF this, of requestId reads] obtain bodies where
    b: "sent (read_loop requestId reads ?st) = sent ?st @ bodies"
      "list_all (\<lambda>m. fst m = s \<and> \<not> is_header_frame (snd m)) bodies"
    by blast
  show ?thesis
  proof (cases "res_body res")
    case True
    then have "sent (forward_response requestId (Inr res) reads st)
        = sent st @ (s, ?frame) # bodies"
      using b(1) st by (simp add: forward_response_def)
    with b(2) True show ?thesis by auto
  next
    case False
    then have "sent (forward_response requestId (Inr res) reads st) = sent st @ (s, ?frame) # []"
      using st by (simp add: forward_response_def)
    with False show ?thesis by auto
  qed
qed

text \<open>The theorem at a compressed response with a body of one chunk.\<close>

theorem fetched_response_header_frame_witness:
  "this_socket open_client = Some 1 \<and> this_readyState open_client = OPEN
   \<and> sent (forward_response ''1'' (Inr ok_response) [Chunk [104, 105], Done] open_client)
       = [(1, ProxyResponseHeaderFrame ''1'' 200 ''OK'' [(''content-type'', ''text/plain'')] False),
          (1, ProxyResponseBodyFrame ''1'' (Some [104, 105]) False),
          (1, ProxyResponseBodyFrame ''1'' None True)]"
  using fetched_response_header_frame [of open_client 1 "''1''" ok_response
      "[Chunk [104, 105], Done]"]
  by (simp add: open_client_def closed_client_def ok_response_def forward_response_def
      fetch_settled_def body_read_def respond_def)

text \<open>Against claim C9 as stated: the fetch succeeds, but the control socket has
  closed in the meantime, and \<^verbatim>\<open>respond\<close> sends nothing.\<close>

theorem closed_socket_emits_no_header_frame:
  "sent (forward_response ''1'' (Inr ok_response) [Chunk [104, 105], Done] closed_client) = []"
  by (simp add: closed_client_def ok_response_def forward_response_def
      fetch_settled_def body_read_def respond_def)

section \<open>Properties of the message listener\<close>

text \<open>
  Claim C2 does not hold of the code. The guard of the listeners rejects only values
  that are not objects: \<^verbatim>\<open>null\<close> passes it, and reading \<^verbatim>\<open>frame.type\<close> then throws
  in the listener of the server; an object with neither a \<^verbatim>\<open>requestId\<close> nor, if one
  likes, a \<^verbatim>\<open>type\<close> passes it as well and is processed.
\<close>

theorem guard_passes_null_and_untagged_frames:
  "frame_rejected JNull = False
   \<and> socket_message s clientId (Binary JNull) st = Inl TypeError
   \<and> frame_rejected (JObject [(''type'', JString ''header''), (''method'', JString ''GET''),
        (''path'', JString ''/''), (''headers'', JArray []), (''eof'', JBoolean True)]) = False"
  by (simp add: frame_rejected_def socket_message_def)

section \<open>Request ids are fresh\<close>

lemma distinct_digits: "distinct ''0123456789abcdefghijklmnopqrstuv''"
  by simp

lemma digit32_inj: "a < 32 \<Longrightarrow> b < 32 \<Longrightarrow> digit32 a = digit32 b \<Longrightarrow> a = b"
  using distinct_digits by (simp add: digit32_def nth_eq_iff_index_eq)

lemma toString32_length: "0 < length (toString32 n)"
  by (induction n rule: toString32.induct) (subst toString32.simps, simp)

lemma toString32_small: "n < 32 \<Longrightarrow> toString32 n = [digit32 n]"
  by (subst toString32.simps) simp

lemma toString32_large:
  "\<not> n < 32 \<Longrightarrow> toString32 n = toString32 (n div 32) @ [digit32 (n mod 32)]"
  by (subst toString32.simps) simp

lemma toString32_inj: "toString32 m = toString32 n \<Longrightarrow> m = n"
proof (induction m arbitrary: n rule: toString32.induct)
  case (1 m)
  show ?case
  proof (cases "m < 32")
    case True
    show ?thesis
    proof (cases "n < 32")
      case True
      with \<open>m < 32\<close> 1(2) show ?thesis
        by (simp add: toString32_small digit32_inj)
    next
      case False
      have "length (toString32 n) = Suc (length (toString32 (n div 32)))"
        using False by (simp add: toString32_large)
      moreover have "length (toString32 m) = 1"
        using True by (simp add: toString32_small)
      ultimately show ?thesis
        using 1(2) toString32_length [of "n div 32"] by simp
    qed
  next
    case False
    show ?thesis
    proof (cases "n < 32")
      case True
      have "length (toString32 m) = Suc (length (toString32 (m div 32)))"
        using False by (simp add: toString32_large)
      moreover have "length (toString32 n) = 1"
        using True by (simp add: toString32_small)
      ultimately show ?thesis
        using 1(2) toString32_length [of "m div 32"] by simp
    next
      case n: False
      from 1(2) have eq: "toString32 (m div 32) @ [digit32 (m mod 32)]
          = toString32 (n div 32) @ [digit32 (n mod 32)]"
        using False n by (simp add: toString32_large)
      then have "toString32 (m div 32) = toString32 (n div 32)"
        and d: "digit32 (m mod 32) = digit32 (n mod 32)"
        by simp_all
      then have "m div 32 = n div 32"
        using 1(1) False by blast
      moreover have "m mod 32 = n mod 32"
        using d by (intro digit32_inj) simp_all
      ultimately show ?thesis
        by (metis div_mult_mod_eq)
    qed
  qed
qed

lemma next_id_fresh: "toString32 (Suc (idPool st)) \<notin> issued st"
  by (auto simp: issued_def dest: toString32_inj)

lemma issued_next: "issued (st\<lparr>idPool := Suc (idPool st)\<rparr>) = insert (toString32 (Suc (idPool st))) (issued st)"
  by (auto simp: issued_def atLeastAtMostSuc_conv)

section \<open>Steps that leave the suspended handlers alone\<close>

lemma update_record_fields:
  "idPool (update_record r f st) = idPool st"
  "requestTasks (update_record r f st) = requestTasks st"
  "responseWriters (update_record r f st) = responseWriters st"
  "clients (update_record r f st) = clients st"
  "records (update_record r f st) = (records st)(r := map_option f (records st r))"
  by (auto simp: update_record_def split: option.splits)

lemma resolve_task_fields:
  "idPool (resolve_task requestId v st) = idPool st"
  "requestTasks (resolve_task requestId v st)
     = (requestTasks st)(requestId := map_option (resolve v) (requestTasks st requestId))"
  "responseWriters (resolve_task requestId v st) = responseWriters st"
  "clients (resolve_task requestId v st) = clients st"
  "records (resolve_task requestId v st) = records st"
  by (auto simp: resolve_task_def split: option.splits)

lemma send_fields:
  "idPool (send s m st) = idPool st"
  "requestTasks (send s m st) = requestTasks st"
  "responseWriters (send s m st) = responseWriters st"
  "clients (send s m st) = clients st"
  "records (send s m st) = records st"
  by (simp_all add: send_def)

lemma send_to_fields:
  "idPool (send_to r m st) = idPool st"
  "requestTasks (send_to r m st) = requestTasks st"
  "responseWriters (send_to r m st) = responseWriters st"
  "clients (send_to r m st) = clients st"
  "records (send_to r m st) = records st"
  by (simp_all add: send_to_def send_fields split: option.splits)

lemma resolve_not_pending: "resolve v t \<noteq> None"
  by (simp add: resolve_def split: option.splits)

lemma quiet_step_same:
  assumes "idPool st' = idPool st" and "requestTasks st' = requestTasks st"
    and "responseWriters st' = responseWriters st" and "records st' = records st"
  shows "quiet_step st st'"
  using assms by (simp add: quiet_step_def)

lemma quiet_step_resolve_task: "quiet_step st (resolve_task requestId v st)"
  unfolding quiet_step_def resolve_task_fields
  by (auto simp: resolve_not_pending split: if_splits)

lemma quiet_step_send: "quiet_step st (send s m st)"
  by (rule quiet_step_same) (simp_all add: send_fields)

lemma quiet_step_send_to: "quiet_step st (send_to r m st)"
  by (rule quiet_step_same) (simp_all add: send_to_fields)

lemma quiet_step_socket_open: "quiet_step st (socket_open s clientId st)"
  by (auto simp: quiet_step_def socket_open_def split: if_splits)

lemma quiet_step_socket_close:
  assumes "socket_close s clientId st = Inr st'"
  shows "quiet_step st st'"
proof -
  from assms obtain r c where rc: "obj_get (clients st) clientId = Some (Some r)"
      "records st r = Some c"
    by (auto simp: socket_close_def split: option.splits)
  with assms have st': "st' =
      st\<lparr>requestTasks :=
            (\<lambda>requestId.
               if requestId \<in> requests c
               then map_option (resolve (HttpResponse internal_server_error))
                      (requestTasks st requestId)
               else requestTasks st requestId),
          responseWriters :=
            (\<lambda>requestId.
               if requestId \<in> responses c
               then map_option writer_close (responseWriters st requestId)
               else responseWriters st requestId),
          clients := obj_set clientId None (clients st)\<rparr>"
    by (simp add: socket_close_def)
  show ?thesis
    unfolding quiet_step_def st'
    by (auto simp: resolve_not_pending dom_def split: if_splits)
qed

lemma client_responses_fields:
  "idPool (client_responses clientId f st) = idPool st"
  "requestTasks (client_responses clientId f st) = requestTasks st"
  "responseWriters (client_responses clientId f st) = responseWriters st"
  "clients (client_responses clientId f st) = clients st"
  by (simp_all add: client_responses_def update_record_fields split: option.splits)

lemma client_responses_records:
  assumes "records (client_responses clientId f st) r = Some c'"
  shows "\<exists>c. records st r = Some c \<and> requests c' = requests c
           \<and> (responses c' = responses c \<or> responses c' = f (responses c))"
  using assms
  by (auto simp: client_responses_def update_record_fields split: option.splits if_splits)

lemma quiet_step_header_frame:
  assumes "requestTasks st requestId = Some t"
  shows "quiet_step st
           (resolve_task requestId v
             (client_responses clientId (insert requestId)
               (st\<lparr>responseWriters := (responseWriters st)(requestId \<mapsto> w)\<rparr>)))"
    (is "quiet_step st ?st'")
proof -
  let ?st1 = "st\<lparr>responseWriters := (responseWriters st)(requestId \<mapsto> w)\<rparr>"
  have tasks: "requestTasks ?st' = (requestTasks st)(requestId \<mapsto> resolve v t)"
    using assms by (simp add: resolve_task_fields client_responses_fields)
  have writers: "responseWriters ?st' = (responseWriters st)(requestId \<mapsto> w)"
    by (simp add: resolve_task_fields client_responses_fields)
  have recs: "\<exists>c. records st r = Some c \<and> requests c' = requests c
           \<and> (responses c' = responses c \<or> responses c' = insert requestId (responses c))"
    if "records ?st' r = Some c'" for r c'
    using client_responses_records [of clientId "insert requestId" ?st1 r c'] that
    by (simp add: resolve_task_fields)
  have 1: "idPool ?st' = idPool st"
    by (simp add: resolve_task_fields client_responses_fields)
  have 2: "dom (requestTasks ?st') = dom (requestTasks st)"
    using assms by (auto simp: tasks)
  have 3: "requestTasks ?st' x = Some None \<longrightarrow> requestTasks st x = Some None" for x
    by (simp add: tasks resolve_not_pending)
  have 4: "responseWriters ?st' x \<noteq> None \<longrightarrow>
      responseWriters st x \<noteq> None
      \<or> (requestTasks st x \<noteq> None \<and> requestTasks ?st' x \<noteq> Some None)" for x
    using assms by (simp add: tasks writers resolve_not_pending)
  have 5: "(requests c' = {} \<and> responses c' = {})
      \<or> (\<exists>c. records st r = Some c \<and> requests c' = requests c
            \<and> (\<forall>x \<in> responses c'. x \<in> responses c
                  \<or> (requestTasks st x \<noteq> None \<and> requestTasks ?st' x \<noteq> Some None)))"
    if "records ?st' r = Some c'" for r c'
  proof -
    from recs [OF that] obtain c where c: "records st r = Some c" "requests c' = requests c"
      "responses c' = responses c \<or> responses c' = insert requestId (responses c)"
      by blast
    have "x \<in> responses c \<or> (requestTasks st x \<noteq> None \<and> requestTasks ?st' x \<noteq> Some None)"
      if "x \<in> responses c'" for x
      using that c(3) assms by (auto simp: tasks resolve_not_pending)
    with c(1,2) show ?thesis by blast
  qed
  show ?thesis
    unfolding quiet_step_def using 1 2 3 4 5 by blast
qed

lemma quiet_step_body_end:
  "quiet_step st
     (client_responses clientId (\<lambda>s. s - {requestId})
       (st\<lparr>responseWriters := (responseWriters st)(requestId := None)\<rparr>))"
    (is "quiet_step st ?st'")
proof -
  let ?st1 = "st\<lparr>responseWriters := (responseWriters st)(requestId := None)\<rparr>"
  have 5: "(requests c' = {} \<and> responses c' = {})
      \<or> (\<exists>c. records st r = Some c \<and> requests c' = requests c
            \<and> (\<forall>x \<in> responses c'. x \<in> responses c
                  \<or> (requestTasks st x \<noteq> None \<and> requestTasks ?st' x \<noteq> Some None)))"
    if "records ?st' r = Some c'" for r c'
    using client_responses_records [of clientId "\<lambda>s. s - {requestId}" ?st1 r c'] that
    by auto
  show ?thesis
    unfolding quiet_step_def using 5
    by (auto simp: client_responses_fields split: if_splits)
qed

lemma quiet_step_processResponseMessage:
  assumes "processResponseMessage f clientId st = Inr st'"
  shows "quiet_step st st'"
proof (cases f)
  case (ProxyResponseHeaderFrame requestId code reason hs eof)
  show ?thesis
  proof (cases "requestTasks st requestId")
    case None
    with assms ProxyResponseHeaderFrame show ?thesis
      by (simp add: quiet_step_same)
  next
    case (Some t)
    with assms ProxyResponseHeaderFrame show ?thesis
      by (auto simp: quiet_step_resolve_task quiet_step_header_frame
          split: if_splits sum.splits)
  qed
next
  case (ProxyResponseBodyFrame requestId data eof)
  show ?thesis
  proof (cases "responseWriters st requestId")
    case None
    with assms ProxyResponseBodyFrame show ?thesis
      by (simp add: quiet_step_same)
  next
    case (Some w)
    have "quiet_step st (st\<lparr>responseWriters := (responseWriters st)(requestId \<mapsto> w')\<rparr>)" for w'
      using Some by (auto simp: quiet_step_def)
    with assms ProxyResponseBodyFrame Some show ?thesis
      by (auto simp: quiet_step_body_end quiet_step_same split: if_splits option.splits)
  qed
qed

lemma quiet_step_socket_message:
  assumes "socket_message s clientId d st = Inr st'"
  shows "quiet_step st st'"
  using assms
  by (auto simp: socket_message_def quiet_step_send quiet_step_same
      quiet_step_processResponseMessage split: ws_data.splits if_splits option.splits)

lemma quiet_step_connect:
  assumes "connect RegExp cfg clientId token st = Inr (r, st')"
  shows "quiet_step st st'"
proof -
  have "quiet_step st st1" if "init_authRule RegExp cfg st = Inr st1" for st1
    using that
    by (auto simp: init_authRule_def quiet_step_same split: if_splits sum.splits)
  with assms show ?thesis
    by (auto simp: connect_def split: sum.splits if_splits)
qed

lemma quiet_step_ws_connect: "quiet_step st (snd (ws_connect cfg clientId requestId token s st))"
  by (simp add: ws_connect_def quiet_step_same quiet_step_resolve_task split: option.splits)

lemma quiet_step_pump: "quiet_step st (pump ctx rr st)"
  by (simp add: pump_def quiet_step_send_to quiet_step_same split: read_result.splits)

lemma quiet_step_abort: "quiet_step st (abort ctx st)"
  by (simp add: abort_def quiet_step_send_to)

section \<open>Every run keeps the invariant\<close>

lemma issued_idPool: "idPool st' = idPool st \<Longrightarrow> issued st' = issued st"
  by (simp add: issued_def)

lemma invariant_quiet_step:
  assumes inv: "invariant sys" and q: "quiet_step (srv sys) st'"
  shows "invariant (sys\<lparr>srv := st'\<rparr>)"
proof -
  let ?st = "srv sys"
  from q have same: "idPool st' = idPool ?st"
    and doms: "dom (requestTasks st') = dom (requestTasks ?st)"
    and pend: "\<And>x. requestTasks st' x = Some None \<Longrightarrow> requestTasks ?st x = Some None"
    and wr: "\<And>x. responseWriters st' x \<noteq> None \<Longrightarrow>
        responseWriters ?st x \<noteq> None
        \<or> (requestTasks ?st x \<noteq> None \<and> requestTasks st' x \<noteq> Some None)"
    and rec: "\<And>r c'. records st' r = Some c' \<Longrightarrow>
        (requests c' = {} \<and> responses c' = {})
        \<or> (\<exists>c. records ?st r = Some c \<and> requests c' = requests c
              \<and> (\<forall>x \<in> responses c'. x \<in> responses c
                    \<or> (requestTasks ?st x \<noteq> None \<and> requestTasks st' x \<noteq> Some None)))"
    unfolding quiet_step_def by blast+
  from inv have A: "ids_issued sys" and B: "pending_unanswered sys"
    and C: "requests_owned sys" and D: "distinct (map ctx_requestId (suspended sys))"
    by (simp_all add: invariant_def)
  have iss: "issued st' = issued ?st"
    using same by (rule issued_idPool)
  have A': "ids_issued (sys\<lparr>srv := st'\<rparr>)"
    unfolding ids_issued_def
  proof (intro conjI allI impI)
    show "dom (requestTasks (srv (sys\<lparr>srv := st'\<rparr>))) \<subseteq> issued (srv (sys\<lparr>srv := st'\<rparr>))"
      using A doms iss by (simp add: ids_issued_def)
    show "dom (responseWriters (srv (sys\<lparr>srv := st'\<rparr>))) \<subseteq> issued (srv (sys\<lparr>srv := st'\<rparr>))"
    proof
      fix x assume "x \<in> dom (responseWriters (srv (sys\<lparr>srv := st'\<rparr>)))"
      then have "responseWriters st' x \<noteq> None" by auto
      from wr [OF this] have "x \<in> dom (responseWriters ?st) \<or> x \<in> dom (requestTasks ?st)"
        by auto
      then show "x \<in> issued (srv (sys\<lparr>srv := st'\<rparr>))"
        using A iss by (auto simp: ids_issued_def)
    qed
    show "ctx_requestId ` set (suspended (sys\<lparr>srv := st'\<rparr>)) \<subseteq> issued (srv (sys\<lparr>srv := st'\<rparr>))"
      using A iss by (simp add: ids_issued_def)
  next
    fix r c' assume "records (srv (sys\<lparr>srv := st'\<rparr>)) r = Some c'"
    then have r: "records st' r = Some c'" by simp
    from A have recA: "\<And>r c. records ?st r = Some c \<Longrightarrow>
        requests c \<subseteq> issued ?st \<and> responses c \<subseteq> issued ?st"
      and domA: "dom (requestTasks ?st) \<subseteq> issued ?st"
      by (simp_all add: ids_issued_def)
    from rec [OF r] consider "requests c' = {}" "responses c' = {}"
      | c where "records ?st r = Some c" "requests c' = requests c"
          "\<forall>x \<in> responses c'. x \<in> responses c
              \<or> (requestTasks ?st x \<noteq> None \<and> requestTasks st' x \<noteq> Some None)"
      by blast
    then have "requests c' \<subseteq> issued ?st \<and> responses c' \<subseteq> issued ?st"
    proof cases
      case 1
      then show ?thesis by simp
    next
      case 2
      have "responses c' \<subseteq> issued ?st"
      proof
        fix x assume "x \<in> responses c'"
        with 2(3) have "x \<in> responses c \<or> x \<in> dom (requestTasks ?st)"
          by auto
        then show "x \<in> issued ?st"
          using recA [OF 2(1)] domA by auto
      qed
      then show ?thesis
        using recA [OF 2(1)] 2(2) by simp
    qed
    then show "requests c' \<subseteq> issued (srv (sys\<lparr>srv := st'\<rparr>))"
      and "responses c' \<subseteq> issued (srv (sys\<lparr>srv := st'\<rparr>))"
      using iss by simp_all
  qed
  have B': "pending_unanswered (sys\<lparr>srv := st'\<rparr>)"
    unfolding pending_unanswered_def
  proof (intro allI impI conjI)
    fix x assume "requestTasks (srv (sys\<lparr>srv := st'\<rparr>)) x = Some None"
    then have p': "requestTasks st' x = Some None" by simp
    then have p: "requestTasks ?st x = Some None" by (rule pend)
    with B have w: "responseWriters ?st x = None"
      and nr: "\<And>r c. records ?st r = Some c \<Longrightarrow> x \<notin> responses c"
      by (auto simp: pending_unanswered_def)
    show "responseWriters (srv (sys\<lparr>srv := st'\<rparr>)) x = None"
      using wr [of x] w p' by (cases "responseWriters st' x") auto
    fix r c' assume "records (srv (sys\<lparr>srv := st'\<rparr>)) r = Some c'"
    then have "records st' r = Some c'" by simp
    from rec [OF this] show "x \<notin> responses c'"
      using nr p' by auto
  qed
  have C': "requests_owned (sys\<lparr>srv := st'\<rparr>)"
    unfolding requests_owned_def
  proof (intro allI impI)
    fix r c' x
    assume "records (srv (sys\<lparr>srv := st'\<rparr>)) r = Some c'" and x: "x \<in> requests c'"
    then have "records st' r = Some c'" by simp
    from rec [OF this] x obtain c where c: "records ?st r = Some c" "x \<in> requests c"
      by auto
    with C have "requestTasks ?st x \<noteq> None"
      and "\<exists>ctx \<in> set (suspended sys). ctx_requestId ctx = x \<and> ctx_client ctx = r"
      by (auto simp: requests_owned_def)
    then show "requestTasks (srv (sys\<lparr>srv := st'\<rparr>)) x \<noteq> None
        \<and> (\<exists>ctx \<in> set (suspended (sys\<lparr>srv := st'\<rparr>)).
              ctx_requestId ctx = x \<and> ctx_client ctx = r)"
      using doms by (auto simp: dom_def)
  qed
  show ?thesis
    using A' B' C' D by (simp add: invariant_def)
qed

lemma dispatch_Inl:
  assumes "dispatch cfg now req st = (Inl r, st')"
  shows "st' = st"
  using assms by (auto simp: dispatch_def Let_def split: if_splits)

lemma dispatch_Inr:
  assumes "dispatch cfg now req st = (Inr ctx, st')"
  shows "ctx_requestId ctx = toString32 (Suc (idPool st))
     \<and> idPool st' = Suc (idPool st)
     \<and> requestTasks st' = (requestTasks st)(ctx_requestId ctx \<mapsto> None)
     \<and> responseWriters st' = responseWriters st
     \<and> records st' =
         (records st)(ctx_client ctx :=
            map_option (\<lambda>c. c\<lparr>requests := insert (ctx_requestId ctx) (requests c)\<rparr>)
              (records st (ctx_client ctx)))"
proof -
  from assms have "\<not> unauthorized cfg st req" and "live_clients st \<noteq> []"
    by (auto simp: dispatch_def Let_def split: if_splits)
  from dispatch_admitted [OF this, of now] assms show ?thesis
    by (auto simp: send_to_fields update_record_fields)
qed

lemma invariant_dispatch:
  assumes inv: "invariant sys" and d: "dispatch cfg now req (srv sys) = (Inr ctx, st')"
  shows "invariant (sys\<lparr>srv := st', suspended := suspended sys @ [ctx]\<rparr>)"
    (is "invariant ?sys'")
proof -
  let ?st = "srv sys"
  let ?new = "ctx_requestId ctx"
  from dispatch_Inr [OF d] have new: "?new = toString32 (Suc (idPool ?st))"
    and pool: "idPool st' = Suc (idPool ?st)"
    and tasks: "requestTasks st' = (requestTasks ?st)(?new \<mapsto> None)"
    and writers: "responseWriters st' = responseWriters ?st"
    and recs: "records st' =
         (records ?st)(ctx_client ctx :=
            map_option (\<lambda>c. c\<lparr>requests := insert ?new (requests c)\<rparr>)
              (records ?st (ctx_client ctx)))"
    by simp_all
  from inv have A: "ids_issued sys" and B: "pending_unanswered sys"
    and C: "requests_owned sys" and D: "distinct (map ctx_requestId (suspended sys))"
    by (simp_all add: invariant_def)
  have fresh: "?new \<notin> issued ?st"
    unfolding new by (rule next_id_fresh)
  have iss: "issued st' = insert ?new (issued ?st)"
    using pool issued_next [of ?st] by (simp add: issued_def new)
  from A have domT: "dom (requestTasks ?st) \<subseteq> issued ?st"
    and domW: "dom (responseWriters ?st) \<subseteq> issued ?st"
    and recA: "\<And>r c. records ?st r = Some c \<Longrightarrow>
        requests c \<subseteq> issued ?st \<and> responses c \<subseteq> issued ?st"
    and susA: "ctx_requestId ` set (suspended sys) \<subseteq> issued ?st"
    by (simp_all add: ids_issued_def)
  have rec': "\<exists>c. records ?st r = Some c \<and> responses c' = responses c
      \<and> (requests c' = requests c
          \<or> (r = ctx_client ctx \<and> requests c' = insert ?new (requests c)))"
    if "records st' r = Some c'" for r c'
    using that unfolding recs by (auto split: if_splits)
  have A': "ids_issued ?sys'"
    unfolding ids_issued_def
  proof (intro conjI allI impI)
    show "dom (requestTasks (srv ?sys')) \<subseteq> issued (srv ?sys')"
      using domT by (auto simp: tasks iss)
    show "dom (responseWriters (srv ?sys')) \<subseteq> issued (srv ?sys')"
      using domW by (auto simp: writers iss)
    show "ctx_requestId ` set (suspended ?sys') \<subseteq> issued (srv ?sys')"
      using susA by (auto simp: iss)
  next
    fix r c' assume "records (srv ?sys') r = Some c'"
    then have "records st' r = Some c'" by simp
    from rec' [OF this] obtain c where c: "records ?st r = Some c"
      "responses c' = responses c"
      "requests c' = requests c \<or> requests c' = insert ?new (requests c)"
      by blast
    show "requests c' \<subseteq> issued (srv ?sys')"
      using recA [OF c(1)] c(3) by (auto simp: iss)
    show "responses c' \<subseteq> issued (srv ?sys')"
      using recA [OF c(1)] c(2) by (auto simp: iss)
  qed
  have B': "pending_unanswered ?sys'"
    unfolding pending_unanswered_def
  proof (intro allI impI conjI)
    fix x assume "requestTasks (srv ?sys') x = Some None"
    then have p: "x = ?new \<or> requestTasks ?st x = Some None"
      by (auto simp: tasks split: if_splits)
    show "responseWriters (srv ?sys') x = None"
    proof (cases "x = ?new")
      case True
      then show ?thesis
        using fresh domW by (auto simp: writers)
    next
      case False
      with p B show ?thesis
        by (auto simp: writers pending_unanswered_def)
    qed
    fix r c' assume "records (srv ?sys') r = Some c'"
    then have "records st' r = Some c'" by simp
    from rec' [OF this] obtain c where c: "records ?st r = Some c"
      "responses c' = responses c"
      by blast
    show "x \<notin> responses c'"
    proof (cases "x = ?new")
      case True
      then show ?thesis
        using fresh recA [OF c(1)] c(2) by auto
    next
      case False
      with p B c show ?thesis
        by (auto simp: pending_unanswered_def)
    qed
  qed
  have C': "requests_owned ?sys'"
    unfolding requests_owned_def
  proof (intro allI impI)
    fix r c' x
    assume "records (srv ?sys') r = Some c'" and x: "x \<in> requests c'"
    then have "records st' r = Some c'" by simp
    from rec' [OF this] obtain c where c: "records ?st r = Some c"
      "requests c' = requests c
        \<or> (r = ctx_client ctx \<and> requests c' = insert ?new (requests c))"
      by blast
    show "requestTasks (srv ?sys') x \<noteq> None
        \<and> (\<exists>k \<in> set (suspended ?sys'). ctx_requestId k = x \<and> ctx_client k = r)"
    proof (cases "x \<in> requests c")
      case True
      with C c(1) have "requestTasks ?st x \<noteq> None"
        and "\<exists>k \<in> set (suspended sys). ctx_requestId k = x \<and> ctx_client k = r"
        by (auto simp: requests_owned_def)
      then show ?thesis
        by (auto simp: tasks)
    next
      case False
      with x c(2) have "x = ?new" and "r = ctx_client ctx"
        by auto
      then show ?thesis
        by (simp add: tasks)
    qed
  qed
  have D': "distinct (map ctx_requestId (suspended ?sys'))"
    using D susA fresh by auto
  show ?thesis
    using A' B' C' D' by (simp add: invariant_def)
qed

lemma requests_ownedD:
  assumes "requests_owned sys" and "records (srv sys) r = Some c" and "x \<in> requests c"
  shows "requestTasks (srv sys) x \<noteq> None"
    and "\<exists>k \<in> set (suspended sys). ctx_requestId k = x \<and> ctx_client k = r"
  using assms unfolding requests_owned_def by blast+

lemma cleanup_fields:
  "idPool (cleanup ctx st) = idPool st"
  "requestTasks (cleanup ctx st) = (requestTasks st)(ctx_requestId ctx := None)"
  "responseWriters (cleanup ctx st) = responseWriters st"
  "clients (cleanup ctx st) = clients st"
  "records (cleanup ctx st) =
     (records st)(ctx_client ctx :=
        map_option (\<lambda>c. c\<lparr>requests := requests c - {ctx_requestId ctx}\<rparr>)
          (records st (ctx_client ctx)))"
  by (simp_all add: cleanup_def update_record_fields)

lemma resume_Some:
  assumes "resume ctx now st = Some (rep, st')"
  shows "st' = cleanup ctx st"
  using assms by (auto simp: resume_def split: option.splits)

lemma distinct_map_remove1:
  "distinct (map f xs) \<Longrightarrow> distinct (map f (remove1 x xs))"
proof (induction xs)
  case Nil
  show ?case by simp
next
  case (Cons a xs)
  have "f a \<notin> f ` set (remove1 x xs)"
    using Cons.prems set_remove1_subset [of x xs] by auto
  with Cons show ?case by auto
qed

lemma invariant_cleanup:
  assumes inv: "invariant sys" and mem: "ctx \<in> set (suspended sys)"
  shows "invariant (sys\<lparr>srv := cleanup ctx (srv sys),
            suspended := remove1 ctx (suspended sys),
            returned := returned sys @ [ctx], replies := replies sys @ [rep]\<rparr>)"
    (is "invariant ?sys'")
proof -
  let ?st = "srv sys"
  let ?st' = "cleanup ctx (srv sys)"
  let ?id = "ctx_requestId ctx"
  from inv have A: "ids_issued sys" and B: "pending_unanswered sys"
    and C: "requests_owned sys" and D: "distinct (map ctx_requestId (suspended sys))"
    by (simp_all add: invariant_def)
  have iss: "issued ?st' = issued ?st"
    by (rule issued_idPool) (simp add: cleanup_fields)
  have rec': "\<exists>c. records ?st r = Some c \<and> responses c' = responses c
      \<and> (requests c' = requests c
          \<or> (r = ctx_client ctx \<and> requests c' = requests c - {?id}))"
    if "records ?st' r = Some c'" for r c'
    using that unfolding cleanup_fields by (auto split: if_splits)
  have other: "k \<in> set (remove1 ctx (suspended sys))"
    if "k \<in> set (suspended sys)" and "ctx_requestId k \<noteq> ?id" for k
    using that by (cases "k = ctx") (auto simp: in_set_remove1)
  have unique: "k = ctx" if "k \<in> set (suspended sys)" and "ctx_requestId k = ?id" for k
    using that mem D by (auto simp: distinct_map dest: inj_onD)
  have A': "ids_issued ?sys'"
    unfolding ids_issued_def
  proof (intro conjI allI impI)
    show "dom (requestTasks (srv ?sys')) \<subseteq> issued (srv ?sys')"
      using A iss by (auto simp: cleanup_fields ids_issued_def split: if_splits)
    show "dom (responseWriters (srv ?sys')) \<subseteq> issued (srv ?sys')"
      using A iss by (auto simp: cleanup_fields ids_issued_def)
    show "ctx_requestId ` set (suspended ?sys') \<subseteq> issued (srv ?sys')"
    proof
      fix y assume "y \<in> ctx_requestId ` set (suspended ?sys')"
      then obtain k where "k \<in> set (remove1 ctx (suspended sys))" "y = ctx_requestId k"
        by auto
      then have "y \<in> ctx_requestId ` set (suspended sys)"
        using set_remove1_subset [of ctx "suspended sys"] by auto
      then show "y \<in> issued (srv ?sys')"
        using A iss by (auto simp: ids_issued_def)
    qed
  next
    fix r c' assume "records (srv ?sys') r = Some c'"
    then have "records ?st' r = Some c'" by simp
    from rec' [OF this] obtain c where c: "records ?st r = Some c"
      "responses c' = responses c" "requests c' \<subseteq> requests c"
      by auto
    from A c(1) have "requests c \<subseteq> issued ?st" "responses c \<subseteq> issued ?st"
      by (auto simp: ids_issued_def)
    with c show "requests c' \<subseteq> issued (srv ?sys')" "responses c' \<subseteq> issued (srv ?sys')"
      using iss by auto
  qed
  have B': "pending_unanswered ?sys'"
    unfolding pending_unanswered_def
  proof (intro allI impI conjI)
    fix x assume "requestTasks (srv ?sys') x = Some None"
    then have p: "requestTasks ?st x = Some None"
      by (auto simp: cleanup_fields split: if_splits)
    with B show "responseWriters (srv ?sys') x = None"
      by (auto simp: cleanup_fields pending_unanswered_def)
    fix r c' assume "records (srv ?sys') r = Some c'"
    then have "records ?st' r = Some c'" by simp
    from rec' [OF this] obtain c where "records ?st r = Some c" "responses c' = responses c"
      by blast
    with p B show "x \<notin> responses c'"
      by (auto simp: pending_unanswered_def)
  qed
  have C': "requests_owned ?sys'"
    unfolding requests_owned_def
  proof (intro allI impI)
    fix r c' x
    assume "records (srv ?sys') r = Some c'" and x: "x \<in> requests c'"
    then have "records ?st' r = Some c'" by simp
    from rec' [OF this] obtain c where c: "records ?st r = Some c"
      "requests c' = requests c
        \<or> (r = ctx_client ctx \<and> requests c' = requests c - {?id})"
      by blast
    from x c(2) have xc: "x \<in> requests c" by auto
    from requests_ownedD [OF C c(1) xc] obtain k where
      k: "requestTasks ?st x \<noteq> None" "k \<in> set (suspended sys)"
      "ctx_requestId k = x" "ctx_client k = r"
      by blast
    have ne: "x \<noteq> ?id"
    proof
      assume eq: "x = ?id"
      with k have "k = ctx" by (simp add: unique)
      with k(4) have "r = ctx_client ctx" by simp
      then have "records ?st' r
          = Some (c\<lparr>requests := requests c - {?id}\<rparr>)"
        using c(1) by (simp add: cleanup_fields)
      with \<open>records ?st' r = Some c'\<close> x eq show False by auto
    qed
    then show "requestTasks (srv ?sys') x \<noteq> None
        \<and> (\<exists>k \<in> set (suspended ?sys'). ctx_requestId k = x \<and> ctx_client k = r)"
      using k other [of k] by (auto simp: cleanup_fields)
  qed
  have D': "distinct (map ctx_requestId (suspended ?sys'))"
    using D by (simp add: distinct_map_remove1)
  show ?thesis
    using A' B' C' D' by (simp add: invariant_def)
qed

lemma find_suspended:
  "find (\<lambda>c. ctx_requestId c = requestId) xs = Some ctx \<Longrightarrow>
     ctx \<in> set xs \<and> ctx_requestId ctx = requestId"
  by (auto simp: find_Some_iff)

lemma invariant_cong:
  "srv sys' = srv sys \<Longrightarrow> suspended sys' = suspended sys \<Longrightarrow> invariant sys' = invariant sys"
  by (simp add: invariant_def ids_issued_def pending_unanswered_def requests_owned_def)

lemma handle_Resume_None:
  assumes "find (\<lambda>c. ctx_requestId c = requestId) (suspended sys) = None"
  shows "handle RegExp cfg (Resume now requestId) sys = sys"
  by (simp only: handle.simps assms option.case)

lemma handle_Resume_waiting:
  assumes "find (\<lambda>c. ctx_requestId c = requestId) (suspended sys) = Some ctx"
    and "resume ctx now (srv sys) = None"
  shows "handle RegExp cfg (Resume now requestId) sys = sys"
  by (simp only: handle.simps assms option.case)

lemma handle_Resume_Some:
  assumes "find (\<lambda>c. ctx_requestId c = requestId) (suspended sys) = Some ctx"
    and "resume ctx now (srv sys) = Some (rep, st')"
  shows "handle RegExp cfg (Resume now requestId) sys =
     sys\<lparr>srv := st', suspended := remove1 ctx (suspended sys),
         returned := returned sys @ [ctx], replies := replies sys @ [rep]\<rparr>"
  by (simp only: handle.simps assms option.case prod.case)

lemma handle_Public_Inl:
  assumes "dispatch cfg now req (srv sys) = (Inl r, st')"
  shows "handle RegExp cfg (Public now req) sys
     = sys\<lparr>srv := st', replies := replies sys @ [Respond r]\<rparr>"
  by (simp only: handle.simps assms prod.case sum.case)

lemma handle_Public_Inr:
  assumes "dispatch cfg now req (srv sys) = (Inr ctx, st')"
  shows "handle RegExp cfg (Public now req) sys
     = sys\<lparr>srv := st', suspended := suspended sys @ [ctx]\<rparr>"
  by (simp only: handle.simps assms prod.case sum.case)

lemma handle_BodyRead:
  "handle RegExp cfg (BodyRead requestId rr) sys =
     (case handler_of sys requestId of
        None \<Rightarrow> sys
      | Some ctx \<Rightarrow> sys\<lparr>srv := pump ctx rr (srv sys)\<rparr>)"
  by simp

lemma handle_Abort:
  "handle RegExp cfg (Abort requestId) sys =
     (case handler_of sys requestId of
        None \<Rightarrow> sys
      | Some ctx \<Rightarrow> sys\<lparr>srv := abort ctx (srv sys)\<rparr>)"
  by simp

lemma invariant_handle:
  assumes "invariant sys"
  shows "invariant (handle RegExp cfg e sys)"
proof (cases e)
  case (Connect clientId token)
  show ?thesis
  proof (cases "connect RegExp cfg clientId token (srv sys)")
    case (Inl err)
    with Connect assms show ?thesis by simp
  next
    case (Inr p)
    obtain r st' where p: "p = (r, st')" by (cases p)
    with Inr have "quiet_step (srv sys) st'" by (simp add: quiet_step_connect)
    then have "invariant (sys\<lparr>srv := st'\<rparr>)"
      using assms by (simp add: invariant_quiet_step)
    with Connect Inr p show ?thesis by simp
  qed
next
  case (Open s clientId)
  have "invariant (sys\<lparr>srv := socket_open s clientId (srv sys)\<rparr>)"
    using assms quiet_step_socket_open by (rule invariant_quiet_step)
  with Open show ?thesis by simp
next
  case (Message s clientId d)
  show ?thesis
  proof (cases "socket_message s clientId d (srv sys)")
    case (Inl err)
    with Message assms show ?thesis by (simp add: or_unchanged_def)
  next
    case (Inr st')
    then have "quiet_step (srv sys) st'" by (rule quiet_step_socket_message)
    with assms have "invariant (sys\<lparr>srv := st'\<rparr>)" by (rule invariant_quiet_step)
    with Message Inr show ?thesis
      by (simp add: or_unchanged_def)
  qed
next
  case (Close s clientId)
  show ?thesis
  proof (cases "socket_close s clientId (srv sys)")
    case (Inl err)
    with Close assms show ?thesis by (simp add: or_unchanged_def)
  next
    case (Inr st')
    then have "quiet_step (srv sys) st'" by (rule quiet_step_socket_close)
    with assms have "invariant (sys\<lparr>srv := st'\<rparr>)" by (rule invariant_quiet_step)
    with Close Inr show ?thesis
      by (simp add: or_unchanged_def)
  qed
next
  case (WsConnect clientId requestId token s)
  have "invariant (sys\<lparr>srv := snd (ws_connect cfg clientId requestId token s (srv sys))\<rparr>)"
    using assms quiet_step_ws_connect by (rule invariant_quiet_step)
  with WsConnect show ?thesis by simp
next
  case (Public now req)
  obtain a st' where d: "dispatch cfg now req (srv sys) = (a, st')"
    by (cases "dispatch cfg now req (srv sys)")
  show ?thesis
  proof (cases a)
    case (Inl r)
    with d have eq: "st' = srv sys" by (simp add: dispatch_Inl)
    have "invariant (sys\<lparr>srv := st', replies := replies sys @ [Respond r]\<rparr>)
        = invariant sys"
      by (rule invariant_cong) (simp_all add: eq)
    with assms show ?thesis
      unfolding Public using d Inl by (simp only: handle_Public_Inl)
  next
    case (Inr ctx)
    with d assms have "invariant (sys\<lparr>srv := st', suspended := suspended sys @ [ctx]\<rparr>)"
      by (simp only: invariant_dispatch)
    then show ?thesis
      unfolding Public using d Inr by (simp only: handle_Public_Inr)
  qed
next
  case (Resume now requestId)
  show ?thesis
  proof (cases "find (\<lambda>c. ctx_requestId c = requestId) (suspended sys)")
    case None
    show ?thesis
      unfolding Resume using assms by (simp only: handle_Resume_None [OF None])
  next
    case (Some ctx)
    have mem: "ctx \<in> set (suspended sys)"
      using find_suspended [OF Some] by blast
    show ?thesis
    proof (cases "resume ctx now (srv sys)")
      case None
      show ?thesis
        unfolding Resume using assms by (simp only: handle_Resume_waiting [OF Some None])
    next
      case r: (Some p)
      obtain rep st' where p: "p = (rep, st')" by (cases p)
      with r have r': "resume ctx now (srv sys) = Some (rep, st')" by simp
      then have st': "st' = cleanup ctx (srv sys)" by (rule resume_Some)
      show ?thesis
        unfolding Resume handle_Resume_Some [OF Some r'] st'
        by (rule invariant_cleanup [OF assms mem])
    qed
  qed
next
  case (BodyRead requestId rr)
  show ?thesis
  proof (cases "handler_of sys requestId")
    case None
    show ?thesis
      unfolding BodyRead handle_BodyRead None using assms by simp
  next
    case (Some ctx)
    have "invariant (sys\<lparr>srv := pump ctx rr (srv sys)\<rparr>)"
      using assms quiet_step_pump by (rule invariant_quiet_step)
    then show ?thesis
      unfolding BodyRead handle_BodyRead Some by simp
  qed
next
  case (Abort requestId)
  show ?thesis
  proof (cases "handler_of sys requestId")
    case None
    show ?thesis
      unfolding Abort handle_Abort None using assms by simp
  next
    case (Some ctx)
    have "invariant (sys\<lparr>srv := abort ctx (srv sys)\<rparr>)"
      using assms quiet_step_abort by (rule invariant_quiet_step)
    then show ?thesis
      unfolding Abort handle_Abort Some by simp
  qed
qed

lemma invariant_init: "invariant init_system"
  by (simp add: invariant_def ids_issued_def pending_unanswered_def requests_owned_def
      init_system_def init_server_def)

lemma invariant_run_from: "invariant sys \<Longrightarrow> invariant (run RegExp cfg evs sys)"
  unfolding run_def by (induction evs arbitrary: sys) (simp_all add: invariant_handle)

lemma invariant_run: "invariant (run RegExp cfg evs init_system)"
  by (simp add: invariant_run_from invariant_init)

section \<open>Ids in both sets of a record\<close>

lemma pending_unansweredD:
  assumes "pending_unanswered sys" and "requestTasks (srv sys) x = Some None"
  shows "responseWriters (srv sys) x = None"
    and "records (srv sys) r = Some c \<Longrightarrow> x \<notin> responses c"
  using assms unfolding pending_unanswered_def by blast+

text \<open>
  Claim C3, as the code has it. In every state a run reaches, an id that is in both the
  \<open>requests\<close> and the \<open>responses\<close> set of a record object has a task that is in the map
  and settled, and a handler that chose this record is still suspended on it: the sets
  overlap only between the resolution of a task by a header frame with
  \<^verbatim>\<open>eof = false\<close> and the cleanup of the handler. An id whose task is pending or gone
  is in at most one of the sets.
\<close>

theorem overlap_only_between_resolution_and_cleanup:
  assumes "records (srv (run RegExp cfg evs init_system)) r = Some c"
    and "requestId \<in> requests c" and "requestId \<in> responses c"
  shows "(\<exists>v. requestTasks (srv (run RegExp cfg evs init_system)) requestId = Some (Some v))
     \<and> (\<exists>ctx \<in> set (suspended (run RegExp cfg evs init_system)).
           ctx_requestId ctx = requestId \<and> ctx_client ctx = r)"
proof -
  let ?sys = "run RegExp cfg evs init_system"
  have inv: "invariant ?sys"
    by (rule invariant_run)
  then have B: "pending_unanswered ?sys" and C: "requests_owned ?sys"
    by (simp_all add: invariant_def)
  from requests_ownedD [OF C assms(1,2)]
  have t: "requestTasks (srv ?sys) requestId \<noteq> None"
    and k: "\<exists>ctx \<in> set (suspended ?sys). ctx_requestId ctx = requestId \<and> ctx_client ctx = r"
    by blast+
  have "requestTasks (srv ?sys) requestId \<noteq> Some None"
    using pending_unansweredD(2) [OF B _ assms(1)] assms(3) by blast
  with t have "\<exists>v. requestTasks (srv ?sys) requestId = Some (Some v)"
    by (cases "requestTasks (srv ?sys) requestId") auto
  with k show ?thesis by blast
qed

section \<open>The timeout\<close>

lemma forgotten_quiet_step:
  assumes "quiet_step st st'" and "forgotten x st"
  shows "forgotten x st'"
proof -
  from assms(1) have doms: "dom (requestTasks st') = dom (requestTasks st)"
    and wr: "responseWriters st' x \<noteq> None \<Longrightarrow>
        responseWriters st x \<noteq> None
        \<or> (requestTasks st x \<noteq> None \<and> requestTasks st' x \<noteq> Some None)"
    unfolding quiet_step_def by blast+
  from assms(2) have t: "requestTasks st x = None" and w: "responseWriters st x = None"
    by (simp_all add: forgotten_def)
  have "requestTasks st' x = None"
    using doms t by (metis domIff)
  moreover have "responseWriters st' x = None"
    using wr t w by (cases "responseWriters st' x") auto
  ultimately show ?thesis
    by (simp add: forgotten_def)
qed

lemma issued_quiet_step: "quiet_step st st' \<Longrightarrow> issued st' = issued st"
  by (rule issued_idPool) (simp add: quiet_step_def)

lemma forgotten_handle:
  assumes i: "x \<in> issued (srv sys)" and f: "forgotten x (srv sys)"
  shows "x \<in> issued (srv (handle RegExp cfg e sys)) \<and> forgotten x (srv (handle RegExp cfg e sys))"
proof -
  have quiet: "x \<in> issued st' \<and> forgotten x st'" if "quiet_step (srv sys) st'" for st'
    using that i f by (simp add: issued_quiet_step forgotten_quiet_step)
  show ?thesis
  proof (cases e)
    case (Connect clientId token)
    show ?thesis
    proof (cases "connect RegExp cfg clientId token (srv sys)")
      case (Inl err)
      with Connect i f show ?thesis by simp
    next
      case (Inr p)
      obtain r st' where p: "p = (r, st')" by (cases p)
      with Inr have "quiet_step (srv sys) st'" by (simp add: quiet_step_connect)
      from quiet [OF this] Connect Inr p show ?thesis by simp
    qed
  next
    case (Open s clientId)
    from quiet [OF quiet_step_socket_open] Open show ?thesis by simp
  next
    case (Message s clientId d)
    show ?thesis
    proof (cases "socket_message s clientId d (srv sys)")
      case (Inl err)
      with Message i f show ?thesis by (simp add: or_unchanged_def)
    next
      case (Inr st')
      then have "quiet_step (srv sys) st'" by (rule quiet_step_socket_message)
      from quiet [OF this] Message Inr show ?thesis by (simp add: or_unchanged_def)
    qed
  next
    case (Close s clientId)
    show ?thesis
    proof (cases "socket_close s clientId (srv sys)")
      case (Inl err)
      with Close i f show ?thesis by (simp add: or_unchanged_def)
    next
      case (Inr st')
      then have "quiet_step (srv sys) st'" by (rule quiet_step_socket_close)
      from quiet [OF this] Close Inr show ?thesis by (simp add: or_unchanged_def)
    qed
  next
    case (WsConnect clientId requestId token s)
    from quiet [OF quiet_step_ws_connect] WsConnect show ?thesis by simp
  next
    case (Public now req)
    obtain a st' where d: "dispatch cfg now req (srv sys) = (a, st')"
      by (cases "dispatch cfg now req (srv sys)")
    show ?thesis
    proof (cases a)
      case (Inl r)
      with d have "st' = srv sys" by (simp add: dispatch_Inl)
      with i f show ?thesis
        unfolding Public handle_Public_Inl [OF d [unfolded Inl]] by simp
    next
      case (Inr ctx)
      note d' = d [unfolded Inr]
      from dispatch_Inr [OF d'] have new: "ctx_requestId ctx = toString32 (Suc (idPool (srv sys)))"
        and pool: "idPool st' = Suc (idPool (srv sys))"
        and tasks: "requestTasks st' = (requestTasks (srv sys))(ctx_requestId ctx \<mapsto> None)"
        and writers: "responseWriters st' = responseWriters (srv sys)"
        by simp_all
      have ne: "x \<noteq> ctx_requestId ctx"
        using i next_id_fresh [of "srv sys"] new by auto
      have "issued st' = insert (ctx_requestId ctx) (issued (srv sys))"
        using pool issued_next [of "srv sys"] by (simp add: issued_def new)
      with i have "x \<in> issued st'" by simp
      moreover have "forgotten x st'"
        using f ne by (simp add: forgotten_def tasks writers)
      ultimately show ?thesis
        unfolding Public handle_Public_Inr [OF d'] by simp
    qed
  next
    case (Resume now requestId)
    show ?thesis
    proof (cases "find (\<lambda>c. ctx_requestId c = requestId) (suspended sys)")
      case None
      show ?thesis
        unfolding Resume handle_Resume_None [OF None] using i f by simp
    next
      case (Some ctx)
      show ?thesis
      proof (cases "resume ctx now (srv sys)")
        case None
        show ?thesis
          unfolding Resume handle_Resume_waiting [OF Some None] using i f by simp
      next
        case r: (Some p)
        obtain rep st' where p: "p = (rep, st')" by (cases p)
        with r have r': "resume ctx now (srv sys) = Some (rep, st')" by simp
        then have st': "st' = cleanup ctx (srv sys)" by (rule resume_Some)
        have "issued st' = issued (srv sys)"
          unfolding st' by (rule issued_idPool) (simp add: cleanup_fields)
        moreover have "forgotten x st'"
          using f unfolding st' by (simp add: forgotten_def cleanup_fields)
        ultimately show ?thesis
          unfolding Resume handle_Resume_Some [OF Some r'] using i by simp
      qed
    qed
  next
    case (BodyRead requestId rr)
    show ?thesis
    proof (cases "handler_of sys requestId")
      case None
      show ?thesis
        unfolding BodyRead handle_BodyRead None using i f by simp
    next
      case (Some ctx)
      from quiet [OF quiet_step_pump] show ?thesis
        unfolding BodyRead handle_BodyRead Some by simp
    qed
  next
    case (Abort requestId)
    show ?thesis
    proof (cases "handler_of sys requestId")
      case None
      show ?thesis
        unfolding Abort handle_Abort None using i f by simp
    next
      case (Some ctx)
      from quiet [OF quiet_step_abort] show ?thesis
        unfolding Abort handle_Abort Some by simp
    qed
  qed
qed

lemma forgotten_run:
  "x \<in> issued (srv sys) \<Longrightarrow> forgotten x (srv sys) \<Longrightarrow>
     x \<in> issued (srv (run RegExp cfg evs sys)) \<and> forgotten x (srv (run RegExp cfg evs sys))"
  unfolding run_def
proof (induction evs arbitrary: sys)
  case Nil
  then show ?case by simp
next
  case (Cons e evs)
  from forgotten_handle [OF Cons.prems, of RegExp cfg e]
  have "x \<in> issued (srv (handle RegExp cfg e sys))"
    and "forgotten x (srv (handle RegExp cfg e sys))"
    by simp_all
  from Cons.IH [OF this] show ?case by simp
qed

lemma forgotten_frame_dropped:
  assumes "forgotten (frame_requestId f) st"
  shows "processResponseMessage f clientId st = Inr st"
  using assms by (cases f) (simp_all add: forgotten_def)

lemma find_distinct:
  "distinct (map f xs) \<Longrightarrow> x \<in> set xs \<Longrightarrow> find (\<lambda>c. f c = f x) xs = Some x"
  by (induction xs) (auto simp: image_iff)

lemma timeout_response:
  "text_response b ''Proxy client timeout'' 504 ''Gateway Timeout'' =
     \<lparr>status = 504, statusText = ''Gateway Timeout'', headers = [],
      body = (if b then TextBody ''Proxy client timeout'' else NullBody)\<rparr>"
  by (simp add: text_response_def)

lemma resume_waiting:
  "(resume ctx now st = None) =
     ((\<forall>v. requestTasks st (ctx_requestId ctx) \<noteq> Some (Some v))
      \<and> now < ctx_started ctx + 30000)"
  by (auto simp: resume_def await_any_def split: option.splits)

lemma resume_cleans_up:
  assumes "resume ctx now st = Some (rep, st')"
  shows "requestTasks st' (ctx_requestId ctx) = None"
    and "records st' (ctx_client ctx) = Some c \<Longrightarrow> ctx_requestId ctx \<notin> requests c"
  using assms resume_Some [OF assms] by (auto simp: cleanup_fields)

lemma resume_timeout:
  assumes "requestTasks st (ctx_requestId ctx) = Some None" and "ctx_started ctx + 30000 \<le> now"
  shows "resume ctx now st =
     Some (Respond (text_response (ctx_respondBody ctx) ''Proxy client timeout'' 504
             ''Gateway Timeout''), cleanup ctx st)"
  using assms by (simp add: resume_def await_any_def reply_of_def)

lemma dispatch_ctx_fields:
  assumes "dispatch cfg t req st = (Inr k, st1)"
  shows "ctx_respondBody k = (req_method req \<notin> set [''HEAD'', ''OPTIONS''])"
    and "ctx_started k = t"
proof -
  from assms have "\<not> unauthorized cfg st req" and "live_clients st \<noteq> []"
    by (auto simp: dispatch_def Let_def split: if_splits)
  from dispatch_admitted [OF this, of t] assms
  show "ctx_respondBody k = (req_method req \<notin> set [''HEAD'', ''OPTIONS''])"
    and "ctx_started k = t"
    by (auto simp: respondBody_def)
qed

text \<open>
  Claim C6. A dispatched request records whether a body is to be sent (not for
  \<^verbatim>\<open>HEAD\<close> and \<^verbatim>\<open>OPTIONS\<close>) and when it started. Its handler stays suspended exactly
  while its task is not settled and fewer than 30000 milliseconds have passed. When it
  resumes, with whatever outcome, the task is out of the map and the id out of the
  \<open>requests\<close> set of the record it chose. When it resumes on the timer with the task
  still pending, the reply is 504 with the body \<^verbatim>\<open>Proxy client timeout\<close> (no body for
  \<^verbatim>\<open>HEAD\<close> and \<^verbatim>\<open>OPTIONS\<close>), and after any later events every response frame with
  the id of the request is dropped and leaves the state as it is.
\<close>

theorem timeout_answers_504_and_drops_late_frames:
  assumes "ctx \<in> set (suspended (run RegExp cfg evs init_system))"
  shows "(\<forall>t req st k st1. dispatch cfg t req st = (Inr k, st1) \<longrightarrow>
           ctx_respondBody k = (req_method req \<notin> set [''HEAD'', ''OPTIONS''])
           \<and> ctx_started k = t)
     \<and> (resume ctx now (srv (run RegExp cfg evs init_system)) = None) =
           ((\<forall>v. requestTasks (srv (run RegExp cfg evs init_system)) (ctx_requestId ctx)
                   \<noteq> Some (Some v))
            \<and> now < ctx_started ctx + 30000)
     \<and> (\<forall>rep st'. resume ctx now (srv (run RegExp cfg evs init_system)) = Some (rep, st')
           \<longrightarrow>
           requestTasks st' (ctx_requestId ctx) = None
           \<and> (\<forall>c. records st' (ctx_client ctx) = Some c \<longrightarrow> ctx_requestId ctx \<notin> requests c))
     \<and> (requestTasks (srv (run RegExp cfg evs init_system)) (ctx_requestId ctx) = Some None
          \<and> ctx_started ctx + 30000 \<le> now \<longrightarrow>
          handle RegExp cfg (Resume now (ctx_requestId ctx)) (run RegExp cfg evs init_system)
             = (run RegExp cfg evs init_system)
                 \<lparr>srv := cleanup ctx (srv (run RegExp cfg evs init_system)),
                  suspended := remove1 ctx (suspended (run RegExp cfg evs init_system)),
                  returned := returned (run RegExp cfg evs init_system) @ [ctx],
                  replies := replies (run RegExp cfg evs init_system) @
                    [Respond \<lparr>status = 504, statusText = ''Gateway Timeout'', headers = [],
                       body = (if ctx_respondBody ctx then TextBody ''Proxy client timeout''
                               else NullBody)\<rparr>]\<rparr>
           \<and> (\<forall>later f clientId. frame_requestId f = ctx_requestId ctx \<longrightarrow>
                 processResponseMessage f clientId
                   (srv (run RegExp cfg later
                      (handle RegExp cfg (Resume now (ctx_requestId ctx))
                         (run RegExp cfg evs init_system))))
                 = Inr (srv (run RegExp cfg later
                      (handle RegExp cfg (Resume now (ctx_requestId ctx))
                         (run RegExp cfg evs init_system))))))"
proof -
  let ?sys = "run RegExp cfg evs init_system"
  let ?id = "ctx_requestId ctx"
  have inv: "invariant ?sys"
    by (rule invariant_run)
  then have A: "ids_issued ?sys" and B: "pending_unanswered ?sys"
    and D: "distinct (map ctx_requestId (suspended ?sys))"
    by (simp_all add: invariant_def)
  have 1: "(resume ctx now (srv ?sys) = None) =
      ((\<forall>v. requestTasks (srv ?sys) ?id \<noteq> Some (Some v)) \<and> now < ctx_started ctx + 30000)"
    by (rule resume_waiting)
  have 2: "requestTasks st' ?id = None
      \<and> (\<forall>c. records st' (ctx_client ctx) = Some c \<longrightarrow> ?id \<notin> requests c)"
    if "resume ctx now (srv ?sys) = Some (rep, st')" for rep st'
    using resume_cleans_up [OF that] by blast
  have 3: "handle RegExp cfg (Resume now ?id) ?sys
        = ?sys\<lparr>srv := cleanup ctx (srv ?sys), suspended := remove1 ctx (suspended ?sys),
              returned := returned ?sys @ [ctx],
              replies := replies ?sys @
                [Respond \<lparr>status = 504, statusText = ''Gateway Timeout'', headers = [],
                   body = (if ctx_respondBody ctx then TextBody ''Proxy client timeout''
                           else NullBody)\<rparr>]\<rparr>
      \<and> (\<forall>later f clientId. frame_requestId f = ?id \<longrightarrow>
            processResponseMessage f clientId
              (srv (run RegExp cfg later (handle RegExp cfg (Resume now ?id) ?sys)))
            = Inr (srv (run RegExp cfg later (handle RegExp cfg (Resume now ?id) ?sys))))"
    if p: "requestTasks (srv ?sys) ?id = Some None" and t: "ctx_started ctx + 30000 \<le> now"
  proof -
    have found: "find (\<lambda>c. ctx_requestId c = ?id) (suspended ?sys) = Some ctx"
      using D assms by (rule find_distinct)
    have r: "resume ctx now (srv ?sys) =
        Some (Respond \<lparr>status = 504, statusText = ''Gateway Timeout'', headers = [],
                body = (if ctx_respondBody ctx then TextBody ''Proxy client timeout''
                        else NullBody)\<rparr>, cleanup ctx (srv ?sys))"
      using resume_timeout [OF p t] by (simp only: timeout_response)
    note h = handle_Resume_Some [OF found r, of RegExp cfg]
    let ?sys' = "handle RegExp cfg (Resume now ?id) ?sys"
    have srv': "srv ?sys' = cleanup ctx (srv ?sys)"
      unfolding h by simp
    have "?id \<in> issued (srv ?sys)"
      using A assms by (auto simp: ids_issued_def)
    then have i': "?id \<in> issued (srv ?sys')"
      unfolding srv' issued_def by (simp add: cleanup_fields)
    have "responseWriters (srv ?sys) ?id = None"
      using pending_unansweredD(1) [OF B p] .
    then have f': "forgotten ?id (srv ?sys')"
      unfolding srv' by (simp add: forgotten_def cleanup_fields)
    have "processResponseMessage f clientId (srv (run RegExp cfg later ?sys'))
        = Inr (srv (run RegExp cfg later ?sys'))"
      if "frame_requestId f = ?id" for later f clientId
      using forgotten_run [OF i' f', of RegExp cfg later] that
      by (simp add: forgotten_frame_dropped)
    with h show ?thesis by blast
  qed
  have 0: "ctx_respondBody k = (req_method req \<notin> set [''HEAD'', ''OPTIONS''])
      \<and> ctx_started k = t"
    if "dispatch cfg t req st = (Inr k, st1)" for t req st k st1
    using dispatch_ctx_fields [OF that] by simp
  show ?thesis
    using 0 1 2 3 by blast
qed

section \<open>The example runs\<close>

lemma run_Nil: "run RegExp cfg [] sys = sys"
  by (simp add: run_def)

lemma run_Cons: "run RegExp cfg (e # evs) sys = run RegExp cfg evs (handle RegExp cfg e sys)"
  by (simp add: run_def)

lemma run_append:
  "run RegExp cfg (evs @ evs') sys = run RegExp cfg evs' (run RegExp cfg evs sys)"
  by (simp add: run_def)

lemma dispatch_one_client:
  "dispatch plain_env 0 (get_request ''/x'') (socket_open 10 ''a'' init_server)
     = (Inr first_ctx, waiting_server)"
proof -
  have "fst (dispatch plain_env 0 (get_request ''/x'') (socket_open 10 ''a'' init_server))
      = Inr first_ctx"
    by (simp add: dispatch_admitted plain_env_admits live_one_client first_ctx_def
        socket_open_fields init_server_fields toString32_1)
      (simp add: respondBody_def get_request_def)
  then show ?thesis
    by (simp add: waiting_server_def prod_eq_iff)
qed

lemma open_step:
  "handle RegExp cfg (Open 10 ''a'') init_system
     = \<lparr>srv = socket_open 10 ''a'' init_server, suspended = [], returned = [], replies = []\<rparr>"
  by (simp add: init_system_def)

lemma public_step:
  "handle RegExp plain_env (Public 0 (get_request ''/x''))
       \<lparr>srv = socket_open 10 ''a'' init_server, suspended = [], returned = [], replies = []\<rparr>
     = \<lparr>srv = waiting_server, suspended = [first_ctx], returned = [], replies = []\<rparr>"
  using handle_Public_Inr [of plain_env 0 "get_request ''/x''"
      "\<lparr>srv = socket_open 10 ''a'' init_server, suspended = [], returned = [], replies = []\<rparr>"
      first_ctx waiting_server RegExp]
    dispatch_one_client
  by simp

lemma waiting_run_eq:
  "run RegExp plain_env waiting_run init_system
     = \<lparr>srv = waiting_server, suspended = [first_ctx], returned = [], replies = []\<rparr>"
  by (simp only: waiting_run_def run_Cons run_Nil open_step public_step)

lemma header_frame_decoded:
  "response_frame_of (JObject
        [(''requestId'', JString ''1''), (''type'', JString ''header''),
         (''status'', JNumber 200), (''statusText'', JString ''OK''),
         (''headers'', JArray []), (''eof'', JBoolean False)])
     = Some (ProxyResponseHeaderFrame ''1'' 200 ''OK'' [] False)"
  by simp

lemma header_frame_accepted:
  "processResponseMessage (ProxyResponseHeaderFrame ''1'' 200 ''OK'' [] False) ''a''
       waiting_server = Inr streaming_server"
  by (simp add: waiting_server_eq streaming_server_def new_Response_def resolve_task_def
      client_responses_def obj_get_def update_record_def resolve_def fun_upd_twist)

lemma message_step:
  "handle RegExp cfg (Message 10 ''a'' (Binary (JObject
        [(''requestId'', JString ''1''), (''type'', JString ''header''),
         (''status'', JNumber 200), (''statusText'', JString ''OK''),
         (''headers'', JArray []), (''eof'', JBoolean False)])))
       \<lparr>srv = waiting_server, suspended = [first_ctx], returned = [], replies = []\<rparr>
     = \<lparr>srv = streaming_server, suspended = [first_ctx], returned = [], replies = []\<rparr>"
proof -
  have "socket_message 10 ''a'' (Binary (JObject
        [(''requestId'', JString ''1''), (''type'', JString ''header''),
         (''status'', JNumber 200), (''statusText'', JString ''OK''),
         (''headers'', JArray []), (''eof'', JBoolean False)])) waiting_server
      = Inr streaming_server"
    unfolding socket_message_def ws_data.case header_frame_decoded option.case
      header_frame_accepted
    by (simp add: frame_rejected_def)
  then show ?thesis
    by (simp add: or_unchanged_def)
qed

lemma streaming_run_eq:
  "run RegExp plain_env streaming_run init_system
     = \<lparr>srv = streaming_server, suspended = [first_ctx], returned = [], replies = []\<rparr>"
  by (simp only: streaming_run_def run_append waiting_run_eq run_Cons run_Nil message_step)

text \<open>The theorem on the run in which the header frame of the only request has
  arrived and its handler has not resumed.\<close>

theorem overlap_only_between_resolution_and_cleanup_witness:
  "records (srv (run no_RegExp plain_env streaming_run init_system)) 0
     = Some \<lparr>socket = 10, requests = {''1''}, responses = {''1''}\<rparr>
   \<and> ''1'' \<in> requests \<lparr>socket = 10, requests = {''1''}, responses = {''1''}\<rparr>
   \<and> ''1'' \<in> responses \<lparr>socket = 10, requests = {''1''}, responses = {''1''}\<rparr>
   \<and> requestTasks (srv (run no_RegExp plain_env streaming_run init_system)) ''1''
       = Some (Some (HttpResponse
           \<lparr>status = 200, statusText = ''OK'', headers = [], body = StreamBody ''1''\<rparr>))
   \<and> suspended (run no_RegExp plain_env streaming_run init_system) = [first_ctx]
   \<and> ctx_requestId first_ctx = ''1'' \<and> ctx_client first_ctx = 0"
  using overlap_only_between_resolution_and_cleanup [of no_RegExp plain_env streaming_run 0
      "\<lparr>socket = 10, requests = {''1''}, responses = {''1''}\<rparr>" "''1''"]
  by (simp add: streaming_run_eq streaming_server_def first_ctx_def)

text \<open>Against claim C3 as stated: after the header frame with \<^verbatim>\<open>eof = false\<close>
  and before the handler resumes, the id \<^verbatim>\<open>1\<close> is in both sets of the live record of
  the client \<^verbatim>\<open>a\<close>.\<close>

theorem sets_overlap_before_cleanup:
  "obj_get (clients (srv (run no_RegExp plain_env streaming_run init_system))) ''a''
     = Some (Some 0)
   \<and> records (srv (run no_RegExp plain_env streaming_run init_system)) 0
       = Some \<lparr>socket = 10, requests = {''1''}, responses = {''1''}\<rparr>
   \<and> requests \<lparr>socket = 10, requests = {''1''}, responses = {''1''}\<rparr>
       \<inter> responses \<lparr>socket = 10, requests = {''1''}, responses = {''1''}\<rparr> = {''1''}"
  by (simp add: streaming_run_eq streaming_server_def waiting_server_eq obj_get_def)

lemma first_ctx_fields:
  "ctx_requestId first_ctx = ''1''" "ctx_client first_ctx = 0"
  "ctx_respondBody first_ctx = True" "ctx_started first_ctx = 0"
  by (simp_all add: first_ctx_def)

lemma waiting_task: "requestTasks waiting_server ''1'' = Some None"
  by (simp add: waiting_server_eq)

text \<open>The theorem on the run in which the client never answers: the handler is
  still suspended at 29999 ms; at 30000 ms the reply is 504 and a late header frame
  and a late body frame change nothing.\<close>

theorem timeout_answers_504_and_drops_late_frames_witness:
  "first_ctx \<in> set (suspended (run no_RegExp plain_env waiting_run init_system))
   \<and> requestTasks (srv (run no_RegExp plain_env waiting_run init_system)) ''1'' = Some None
   \<and> resume first_ctx 29999 (srv (run no_RegExp plain_env waiting_run init_system)) = None
   \<and> replies (handle no_RegExp plain_env (Resume 30000 ''1'')
         (run no_RegExp plain_env waiting_run init_system))
       = [Respond \<lparr>status = 504, statusText = ''Gateway Timeout'', headers = [],
            body = TextBody ''Proxy client timeout''\<rparr>]
   \<and> processResponseMessage (ProxyResponseHeaderFrame ''1'' 200 ''OK'' [] False) ''a''
         (srv (handle no_RegExp plain_env (Resume 30000 ''1'')
            (run no_RegExp plain_env waiting_run init_system)))
       = Inr (srv (handle no_RegExp plain_env (Resume 30000 ''1'')
            (run no_RegExp plain_env waiting_run init_system)))
   \<and> processResponseMessage (ProxyResponseBodyFrame ''1'' None True) ''a''
         (srv (handle no_RegExp plain_env (Resume 30000 ''1'')
            (run no_RegExp plain_env waiting_run init_system)))
       = Inr (srv (handle no_RegExp plain_env (Resume 30000 ''1'')
            (run no_RegExp plain_env waiting_run init_system)))"
proof -
  let ?sys = "run no_RegExp plain_env waiting_run init_system"
  have mem: "first_ctx \<in> set (suspended ?sys)"
    by (simp add: waiting_run_eq)
  have p: "requestTasks (srv ?sys) (ctx_requestId first_ctx) = Some None"
    by (simp add: waiting_run_eq first_ctx_fields waiting_task)
  note t = timeout_answers_504_and_drops_late_frames [OF mem]
  have w: "resume first_ctx 29999 (srv ?sys) = None"
    using t [of 29999] p by (simp add: first_ctx_fields)
  have late: "ctx_started first_ctx + 30000 \<le> 30000"
    by (simp add: first_ctx_fields)
  from t [of 30000] p late
  have h: "handle no_RegExp plain_env (Resume 30000 (ctx_requestId first_ctx)) ?sys
        = ?sys\<lparr>srv := cleanup first_ctx (srv ?sys),
              suspended := remove1 first_ctx (suspended ?sys),
              returned := returned ?sys @ [first_ctx],
              replies := replies ?sys @
                [Respond \<lparr>status = 504, statusText = ''Gateway Timeout'', headers = [],
                   body = (if ctx_respondBody first_ctx then TextBody ''Proxy client timeout''
                           else NullBody)\<rparr>]\<rparr>"
    and d: "\<And>later f clientId. frame_requestId f = ctx_requestId first_ctx \<Longrightarrow>
        processResponseMessage f clientId
          (srv (run no_RegExp plain_env later
             (handle no_RegExp plain_env (Resume 30000 (ctx_requestId first_ctx)) ?sys)))
        = Inr (srv (run no_RegExp plain_env later
             (handle no_RegExp plain_env (Resume 30000 (ctx_requestId first_ctx)) ?sys)))"
    by blast+
  have r: "replies (handle no_RegExp plain_env (Resume 30000 ''1'') ?sys)
      = [Respond \<lparr>status = 504, statusText = ''Gateway Timeout'', headers = [],
           body = TextBody ''Proxy client timeout''\<rparr>]"
    using h by (simp add: first_ctx_fields waiting_run_eq)
  have d1: "processResponseMessage (ProxyResponseHeaderFrame ''1'' 200 ''OK'' [] False) ''a''
        (srv (handle no_RegExp plain_env (Resume 30000 ''1'') ?sys))
      = Inr (srv (handle no_RegExp plain_env (Resume 30000 ''1'') ?sys))"
    using d [of "ProxyResponseHeaderFrame ''1'' 200 ''OK'' [] False" "''a''" "[]"]
    by (simp add: first_ctx_fields run_Nil)
  have d2: "processResponseMessage (ProxyResponseBodyFrame ''1'' None True) ''a''
        (srv (handle no_RegExp plain_env (Resume 30000 ''1'') ?sys))
      = Inr (srv (handle no_RegExp plain_env (Resume 30000 ''1'') ?sys))"
    using d [of "ProxyResponseBodyFrame ''1'' None True" "''a''" "[]"]
    by (simp add: first_ctx_fields run_Nil)
  from mem p w r d1 d2 show ?thesis
    by (simp only: first_ctx_fields simp_thms)
qed

section \<open>The round trip of the codec\<close>

lemma unat_byte: "unat (byte n) = n mod 256"
  by (simp add: byte_def unat_of_nat)


lemma length_be [simp]: "length (be k n) = k"
  by (induction k arbitrary: n) simp_all






lemma bytes_str_bytes [simp]: "bytes_str (str_bytes s) = s"
  by (induction s) (simp_all add: bytes_str_def str_bytes_def unat_byte)

lemma length_str_bytes [simp]: "length (str_bytes s) = length s"
  by (simp add: str_bytes_def)

























end
